theory Spec2Isabelle
  imports Complex_Main "HOL-Library.Word" "HOL-Library.Signed_Division" "HOL-Library.Multiset"
begin

section \<open>Errors and panics\<close>

text \<open>
  Go functions of the package return an \<open>error\<close> value next to their result; a runtime
  panic (integer division by zero, a slice expression out of range, an index out of range,
  a nil dereference) ends the process. Both are values of the model: \<open>Error msg\<close> is an
  error value returned to the caller, \<open>Panic p\<close> is the crash.
\<close>

datatype panic = DivideByZero | SliceBounds | IndexOutOfRange | NilDereference

datatype error = Error string | Panic panic

section \<open>String helpers (helpers file)\<close>

text \<open>\<open>containsString\<close>: linear search, returns at the first equal element.\<close>

fun containsString :: "string list \<Rightarrow> string \<Rightarrow> bool" where
  "containsString [] searchStr = False"
| "containsString (v # strSlice) searchStr =
     (if v = searchStr then True else containsString strSlice searchStr)"

text \<open>
  \<open>dedupeString\<close>: the loop over \<open>strSlice\<close> with the accumulator \<open>returnSlice\<close>,
  which starts empty; an element is appended when the accumulator does not contain it yet.
\<close>

fun dedupeString_loop :: "string list \<Rightarrow> string list \<Rightarrow> string list" where
  "dedupeString_loop returnSlice [] = returnSlice"
| "dedupeString_loop returnSlice (v # strSlice) =
     dedupeString_loop
       (if \<not> containsString returnSlice v then returnSlice @ [v] else returnSlice) strSlice"

definition dedupeString :: "string list \<Rightarrow> string list" where
  "dedupeString strSlice = dedupeString_loop [] strSlice"

text \<open>
  \<open>dedupeStringPointer\<close> is the same loop over \<open>[]*string\<close>; elements are compared by
  the strings they point to, so a pointer is modelled by its string.
\<close>

definition dedupeStringPointer :: "string list \<Rightarrow> string list" where
  "dedupeStringPointer strSlice = dedupeString_loop [] strSlice"

text \<open>
  A Go slice expression \<open>s[lo:hi]\<close> panics unless \<open>0 \<le> lo \<le> hi \<le> cap s\<close>. The slices
  cut here are cut from a slice whose length is the bound that matters, so the check is
  made against the length.
\<close>

definition go_slice :: "'a list \<Rightarrow> int \<Rightarrow> int \<Rightarrow> error + 'a list" where
  "go_slice s lo hi =
     (if 0 \<le> lo \<and> lo \<le> hi \<and> hi \<le> int (length s)
      then Inr (take (nat (hi - lo)) (drop (nat lo) s))
      else Inl (Panic SliceBounds))"

text \<open>
  \<open>makeBatchesStringPointer\<close>. Go's \<open>/\<close> and \<open>%\<close> on \<open>int\<close> truncate towards zero
  (\<open>sdiv\<close>, \<open>smod\<close>) and panic on a zero divisor. The first loop runs \<open>i\<close> from 1 to
  \<open>numBatches\<close>; no product it computes exceeds the length of the slice when
  \<open>batchSize\<close> is positive, so \<open>int\<close> stands for Go's 64-bit \<open>int\<close> without wrap-around.
\<close>

function makeBatches_full ::
  "'a list \<Rightarrow> int \<Rightarrow> int \<Rightarrow> int \<Rightarrow> 'a list list \<Rightarrow> error + 'a list list" where
  "makeBatches_full strSlice batchSize numBatches i batches =
     (if i \<le> numBatches then
        (let endIndex = i * batchSize;
             startIndex = (if i = 1 then 0 else batchSize * (i - 1))
         in case go_slice strSlice startIndex endIndex of
              Inl e \<Rightarrow> Inl e
            | Inr b \<Rightarrow> makeBatches_full strSlice batchSize numBatches (i + 1) (batches @ [b]))
      else Inr batches)"
  by pat_completeness auto
termination
  by (relation "measure (\<lambda>(strSlice, batchSize, numBatches, i, batches). nat (numBatches + 1 - i))")
     auto

definition makeBatchesStringPointer :: "'a list \<Rightarrow> int \<Rightarrow> error + 'a list list" where
  "makeBatchesStringPointer strSlice batchSize =
     (if batchSize = 0 then Inl (Panic DivideByZero)
      else
        (let numBatches = int (length strSlice) sdiv batchSize;
             remainder = int (length strSlice) smod batchSize
         in case makeBatches_full strSlice batchSize numBatches 1 [] of
              Inl e \<Rightarrow> Inl e
            | Inr batches \<Rightarrow>
                (if remainder > 0 then
                   (case go_slice strSlice (int (length strSlice) - remainder)
                           (int (length strSlice)) of
                      Inl e \<Rightarrow> Inl e
                    | Inr b \<Rightarrow> Inr (batches @ [b]))
                 else Inr batches)))"

section \<open>Data model (dustcollector.go)\<close>

text \<open>
  The fields of \<open>ec2.Snapshot\<close> that the analysis reads. \<open>VolumeSize\<close> is an
  \<open>int64\<close>; \<open>StartTime\<close> is a point in time, compared with \<open>Before\<close> (strictly
  earlier), modelled as an integer time stamp. The SDK hands these fields out as
  pointers; the package dereferences them unchecked and the provider always fills them,
  so they are plain values here.
\<close>

type_synonym time = int

record Snapshot =
  SnapshotId :: string
  VolumeId :: string
  VolumeSize :: "64 word"
  StartTime :: time

text \<open>
  \<open>Nugget\<close> and \<open>Bar\<close>. The package holds both behind pointers (\<open>[]*Nugget\<close>,
  \<open>[]*Bar\<close>, \<open>parentBar *Bar\<close>). Every nugget is allocated once and appended to
  \<open>exp.Nuggets\<close>, every bar once and appended to \<open>exp.Bars\<close>, so a pointer to a
  nugget is its position in \<open>Nuggets\<close> and a pointer to a bar its position in \<open>Bars\<close>;
  \<open>None\<close> is the nil pointer. The fields of a bar carry the prefix \<open>Bar\<close> because
  record fields share one name space.
\<close>

record Nugget =
  Snap :: Snapshot
  HasVol :: bool
  AMIIDs :: "string list"
  AMISharedWith :: "string list"
  LCs :: "string list"
  LTs :: "string list"
  ASGs :: "string list"
  parentBar :: "nat option"

record Bar =
  BarVolumeId :: string
  BarNuggets :: "nat list"
  BarHasVol :: bool

text \<open>
  A line of the recommendation text. Each constructor stands for one \<open>append\<close> to
  \<open>msg\<close> in \<open>setRecommendations\<close> and carries the arguments of its format string; the
  constant wording is not repeated. \<open>Item s\<close> is the line \<open>"\t" + s\<close>.
\<close>

datatype line =
    IntroLine nat string
  | CaveatLine
  | LtHeader
  | LcHeader
  | AmiHeader
  | SnapHeader
  | Item string
  | SparedHasVolLine nat
  | SparedAsgShareLine nat
  | CostLine int real real

datatype session = AwsSession

datatype logger = Log15Logger

text \<open>
  \<open>Expedition\<close>, without the wait groups and the channel (see the section on snapshot
  intake). \<open>realVols\<close> holds the volumes found so far; only their ids are read.
  \<open>ebsSnapRate\<close> is a \<open>float64\<close>, idealised as a real number. The field \<open>log\<close> is
  named \<open>logger\<close> here and the receiver \<open>exp\<close> is written \<open>expd\<close>, since \<open>log\<close> and
  \<open>exp\<close> are functions of the library.
\<close>

record Expedition =
  Bars :: "Bar list"
  Nuggets :: "Nugget list"
  LtsToDelete :: "string list"
  LcsToDelete :: "string list"
  AmiToDelete :: "string list"
  SnapToDelete :: "string list"
  account :: string
  cutoffDate :: time
  maxPages :: int
  pageSize :: int
  volBatchSize :: int
  session :: "session option"
  realVols :: "string list"
  logger :: "logger option"
  ebsSnapRate :: real
  dateFilter :: string
  outfileRecommendations :: string
  outfileNuggets :: string
  outfileBars :: string
  recommendations :: "line list"

record ExpeditionInput =
  Session :: "session option"
  MaxPages :: "int option"
  PageSize :: "int option"
  VolumeBatchSize :: "int option"
  DateFilter :: "string option"
  OutfileRecommendations :: "string option"
  OutfileNuggets :: "string option"
  OutfileBars :: "string option"
  Logger :: "logger option"
  EbsSnapRate :: "real option"

text \<open>The zero value of \<open>Expedition\<close> (\<open>var e Expedition\<close>).\<close>

definition zeroExpedition :: Expedition where
  "zeroExpedition =
     \<lparr>Bars = [], Nuggets = [], LtsToDelete = [], LcsToDelete = [], AmiToDelete = [],
      SnapToDelete = [], account = [], cutoffDate = 0, maxPages = 0, pageSize = 0,
      volBatchSize = 0, session = None, realVols = [], logger = None, ebsSnapRate = 0,
      dateFilter = [], outfileRecommendations = [], outfileNuggets = [], outfileBars = [],
      recommendations = []\<rparr>"

text \<open>\<open>orDefault\<close>: the pattern \<open>if input.F == nil { input.F = &Default }; e.f = *input.F\<close>.\<close>

definition orDefault :: "'a option \<Rightarrow> 'a \<Rightarrow> 'a" where
  "orDefault field dflt = (case field of None \<Rightarrow> dflt | Some v \<Rightarrow> v)"

text \<open>
  \<open>New\<close> returns the expedition built so far together with the error: it returns early,
  with the later fields still zero, when the session or the logger is missing. No field is
  validated otherwise.
\<close>

definition New :: "ExpeditionInput \<Rightarrow> Expedition \<times> error option" where
  "New input =
     (let e0 = zeroExpedition\<lparr>dateFilter := orDefault (DateFilter input) ''2019-01-01''\<rparr>
      in case Session input of
           None \<Rightarrow> (e0, Some (Error ''Session is required''))
         | Some sess \<Rightarrow>
             (let e1 = e0\<lparr>session := Some sess,
                          maxPages := orDefault (MaxPages input) 25,
                          pageSize := orDefault (PageSize input) 500,
                          volBatchSize := orDefault (VolumeBatchSize input) 30,
                          outfileRecommendations :=
                            orDefault (OutfileRecommendations input) ''out-summary.txt'',
                          outfileNuggets := orDefault (OutfileNuggets input) ''out-nuggets.csv'',
                          outfileBars := orDefault (OutfileBars input) ''out-bars.csv''\<rparr>
              in case Logger input of
                   None \<Rightarrow> (e1, Some (Error ''log15 logger is required''))
                 | Some lg \<Rightarrow>
                     (e1\<lparr>logger := Some lg,
                         ebsSnapRate := orDefault (EbsSnapRate input) (5 / 100)\<rparr>, None)))"

section \<open>Aggregation: \<open>addBar\<close>, \<open>addBars\<close>\<close>

text \<open>
  The loop of \<open>addBar\<close> over \<open>exp.Bars\<close>, for the nugget \<open>n\<close> with volume id \<open>vol\<close>;
  \<open>k\<close> is the position of the bar at hand. Every bar with that volume id gets \<open>n\<close>
  appended (the loop does not stop at the first), and \<open>n.parentBar\<close> ends as the last of
  them. The result is the bars after the loop and the last matching bar, \<open>None\<close> when
  \<open>found\<close> stayed false.
\<close>

fun addBar_scan :: "string \<Rightarrow> nat \<Rightarrow> nat \<Rightarrow> Bar list \<Rightarrow> nat option \<Rightarrow> Bar list \<times> nat option" where
  "addBar_scan vol n k [] parent = ([], parent)"
| "addBar_scan vol n k (bar # bars) parent =
     (if BarVolumeId bar = vol
      then (case addBar_scan vol n (Suc k) bars (Some k) of
              (bars', parent') \<Rightarrow> (bar\<lparr>BarNuggets := BarNuggets bar @ [n]\<rparr> # bars', parent'))
      else (case addBar_scan vol n (Suc k) bars parent of
              (bars', parent') \<Rightarrow> (bar # bars', parent')))"

text \<open>
  \<open>addBar\<close> for the nugget at position \<open>n\<close>. When no bar matched, a new bar is made from
  the nugget: its volume id, the nugget as only member, and \<open>HasVol\<close> copied from the
  nugget. A bar that exists keeps its \<open>HasVol\<close>.
\<close>

definition addBar :: "Expedition \<Rightarrow> nat \<Rightarrow> Expedition" where
  "addBar expd n =
     (let nug = Nuggets expd ! n;
          vol = VolumeId (Snap nug)
      in case addBar_scan vol n 0 (Bars expd) None of
           (bars', Some k) \<Rightarrow>
             expd\<lparr>Bars := bars', Nuggets := (Nuggets expd)[n := nug\<lparr>parentBar := Some k\<rparr>]\<rparr>
         | (bars', None) \<Rightarrow>
             expd\<lparr>Bars := Bars expd @ [\<lparr>BarVolumeId = vol, BarNuggets = [n], BarHasVol = HasVol nug\<rparr>],
                 Nuggets := (Nuggets expd)[n := nug\<lparr>parentBar := Some (length (Bars expd))\<rparr>]\<rparr>)"

text \<open>\<open>addBars\<close>: \<open>addBar\<close> for every nugget of \<open>exp.Nuggets\<close>, in order.\<close>

definition addBars :: "Expedition \<Rightarrow> Expedition" where
  "addBars expd = fold (\<lambda>n e. addBar e n) [0..<length (Nuggets expd)] expd"

section \<open>Plan building: \<open>setRecommendations\<close>\<close>

text \<open>
  The locals of the first loop of \<open>setRecommendations\<close> together with the four plan
  sequences of the expedition it appends to.
\<close>

record PlanAcc =
  accLts :: "string list"
  accLcs :: "string list"
  accAmi :: "string list"
  accSnap :: "string list"
  barsToDelete :: "nat option list"
  countAsgShare :: nat
  countHasVol :: nat

text \<open>The inner loop over the members of one bar whose \<open>HasVol\<close> is false.\<close>

fun planNuggets :: "Nugget list \<Rightarrow> nat list \<Rightarrow> PlanAcc \<Rightarrow> PlanAcc" where
  "planNuggets nugs [] acc = acc"
| "planNuggets nugs (n # ns) acc =
     (let nug = nugs ! n
      in if length (ASGs nug) = 0 \<and> length (AMISharedWith nug) = 0
         then planNuggets nugs ns
                (acc\<lparr>accLts := accLts acc @ LTs nug,
                     accLcs := accLcs acc @ LCs nug,
                     accAmi := accAmi acc @ AMIIDs nug,
                     accSnap := accSnap acc @ [SnapshotId (Snap nug)],
                     barsToDelete := barsToDelete acc @ [parentBar nug]\<rparr>)
         else planNuggets nugs ns (acc\<lparr>countAsgShare := Suc (countAsgShare acc)\<rparr>))"

text \<open>The outer loop over \<open>exp.Bars\<close>.\<close>

fun planBars :: "Nugget list \<Rightarrow> Bar list \<Rightarrow> PlanAcc \<Rightarrow> PlanAcc" where
  "planBars nugs [] acc = acc"
| "planBars nugs (bar # bars) acc =
     (if \<not> BarHasVol bar
      then planBars nugs bars (planNuggets nugs (BarNuggets bar) acc)
      else planBars nugs bars (acc\<lparr>countHasVol := Suc (countHasVol acc)\<rparr>))"

text \<open>
  The cost loop over \<open>barsToDelete\<close>: \<open>totalGbs\<close> is an \<open>int64\<close> and wraps around.
  Dereferencing a nil \<open>parentBar\<close> and indexing an empty member list panic.
\<close>

fun totalGbs_loop :: "Bar list \<Rightarrow> Nugget list \<Rightarrow> nat option list \<Rightarrow> 64 word \<Rightarrow> error + 64 word" where
  "totalGbs_loop bars nugs [] totalGbs = Inr totalGbs"
| "totalGbs_loop bars nugs (None # bs) totalGbs = Inl (Panic NilDereference)"
| "totalGbs_loop bars nugs (Some k # bs) totalGbs =
     (if \<not> BarHasVol (bars ! k)
      then (case BarNuggets (bars ! k) of
              [] \<Rightarrow> Inl (Panic IndexOutOfRange)
            | n # ns \<Rightarrow> totalGbs_loop bars nugs bs (totalGbs + VolumeSize (Snap (nugs ! n))))
      else totalGbs_loop bars nugs bs totalGbs)"

text \<open>The plan after the first loop, started from the sequences the expedition holds.\<close>

definition planOf :: "Expedition \<Rightarrow> PlanAcc" where
  "planOf expd =
     planBars (Nuggets expd) (Bars expd)
       \<lparr>accLts = LtsToDelete expd, accLcs = LcsToDelete expd, accAmi = AmiToDelete expd,
        accSnap = SnapToDelete expd, barsToDelete = [], countAsgShare = 0, countHasVol = 0\<rparr>"

text \<open>The value of \<open>totalGbs\<close> that \<open>setRecommendations\<close> prints.\<close>

definition totalGbs :: "Expedition \<Rightarrow> error + 64 word" where
  "totalGbs expd = totalGbs_loop (Bars expd) (Nuggets expd) (barsToDelete (planOf expd)) 0"

text \<open>
  \<open>setRecommendations\<close>. \<open>totalSavings = float64(totalGbs) * exp.ebsSnapRate\<close> is
  idealised as a product of reals.
\<close>

definition setRecommendations :: "Expedition \<Rightarrow> error + Expedition" where
  "setRecommendations expd =
     (let acc = planOf expd;
          lts = dedupeString (accLts acc);
          lcs = dedupeString (accLcs acc);
          ami = dedupeString (accAmi acc);
          snap = dedupeString (accSnap acc);
          msg = [IntroLine (length snap) (dateFilter expd), CaveatLine]
                  @ [LtHeader] @ map Item lts
                  @ [LcHeader] @ map Item lcs
                  @ [AmiHeader] @ map Item ami
                  @ [SnapHeader] @ map Item snap
                  @ [SparedHasVolLine (countHasVol acc), SparedAsgShareLine (countAsgShare acc)]
      in case totalGbs expd of
           Inl e \<Rightarrow> Inl e
         | Inr gbs \<Rightarrow>
             Inr (expd\<lparr>LtsToDelete := lts, LcsToDelete := lcs, AmiToDelete := ami,
                      SnapToDelete := snap,
                      recommendations :=
                        msg @ [CostLine (sint gbs) (ebsSnapRate expd)
                                 (real_of_int (sint gbs) * ebsSnapRate expd)]\<rparr>))"

section \<open>The provider\<close>

text \<open>
  What the AWS SDK and the date parser of the standard library answer during a run.
  They are not code of the package, so they are parameters of the model; a call with the
  same arguments is answered the same way throughout a run. A paginated
  listing is the sequence of its responses: a failed request, a last page (no next
  token), or a page with a next token and the responses that follow it.
\<close>

datatype 'a Pages = Fail error | Last "'a list" | More "'a list" "'a Pages"

text \<open>
  Block device mappings of images, launch configurations and launch templates: the SDK
  has one type for each, all with an optional \<open>Ebs\<close> holding an optional
  \<open>SnapshotId\<close>.
\<close>

record EbsBlockDevice =
  EbsSnapshotId :: "string option"

record BlockDeviceMapping =
  Ebs :: "EbsBlockDevice option"

record Image =
  ImageId :: string
  BlockDeviceMappings :: "BlockDeviceMapping list"

record LaunchConfiguration =
  LaunchConfigurationName :: string
  LcImageId :: string
  LcBlockDeviceMappings :: "BlockDeviceMapping list"

text \<open>
  A launch template version with the two fields of its \<open>LaunchTemplateData\<close>. The image
  id of a launch template is optional for the provider.
\<close>

record LaunchTemplateVersion =
  LaunchTemplateName :: string
  LtImageId :: "string option"
  LtBlockDeviceMappings :: "BlockDeviceMapping list"

text \<open>
  \<open>autoscaling.Group\<close>: \<open>AsgLaunchTemplate\<close> is the optional launch template
  specification, holding an optional \<open>LaunchTemplateName\<close>.
\<close>

record AutoScalingGroup =
  AutoScalingGroupName :: string
  AsgLaunchConfigurationName :: "string option"
  AsgLaunchTemplate :: "string option option"

record LaunchPermission =
  PermGroup :: "string option"
  PermUserId :: "string option"

record Provider =
  timeParse :: "string \<Rightarrow> time \<times> error option"
  GetCallerIdentity :: "error + string"
  DescribeSnapshots :: "string \<Rightarrow> int \<Rightarrow> Snapshot Pages"
  DescribeVolumes :: "string \<Rightarrow> error + string list"
  DescribeImages :: "string \<Rightarrow> error + Image list"
  DescribeImageAttribute :: "string \<Rightarrow> error + LaunchPermission list"
  DescribeLaunchConfigurations :: "LaunchConfiguration Pages"
  DescribeLaunchTemplateVersions :: "LaunchTemplateVersion Pages"
  DescribeAutoScalingGroups :: "AutoScalingGroup Pages"

section \<open>Listing helpers\<close>

text \<open>
  The pagination loop shared by \<open>describeLaunchTemplates\<close>,
  \<open>describeLaunchConfigurations\<close> and \<open>describeASGs\<close>: after the first request, \<open>i\<close>
  runs from 2 while \<open>i < 50\<close> and the last response had a next token; \<open>next\<close> is what
  the provider answers to the next request. An error returns at once.
\<close>

fun describe_loop :: "nat \<Rightarrow> 'a list \<Rightarrow> 'a Pages \<Rightarrow> error + 'a list" where
  "describe_loop i items (Fail e) = (if i < 50 then Inl e else Inr items)"
| "describe_loop i items (Last page) = (if i < 50 then Inr (items @ page) else Inr items)"
| "describe_loop i items (More page rest) =
     (if i < 50 then describe_loop (Suc i) (items @ page) rest else Inr items)"

definition describe_all :: "'a Pages \<Rightarrow> error + 'a list" where
  "describe_all pages =
     (case pages of
        Fail e \<Rightarrow> Inl e
      | Last page \<Rightarrow> Inr page
      | More page rest \<Rightarrow> describe_loop 2 page rest)"

definition describeLaunchTemplates :: "Provider \<Rightarrow> error + LaunchTemplateVersion list" where
  "describeLaunchTemplates w = describe_all (DescribeLaunchTemplateVersions w)"

definition describeLaunchConfigurations :: "Provider \<Rightarrow> error + LaunchConfiguration list" where
  "describeLaunchConfigurations w = describe_all (DescribeLaunchConfigurations w)"

definition describeASGs :: "Provider \<Rightarrow> error + AutoScalingGroup list" where
  "describeASGs w = describe_all (DescribeAutoScalingGroups w)"

definition describeImagesOwnedByThisAccount :: "Provider \<Rightarrow> error + Image list" where
  "describeImagesOwnedByThisAccount w =
     (case GetCallerIdentity w of
        Inl e \<Rightarrow> Inl e
      | Inr acct \<Rightarrow> DescribeImages w acct)"

text \<open>
  \<open>imageSharedTo\<close> returns the accounts and the error as a pair: on an error the
  accounts are empty.
\<close>

fun launchPermissionAccts :: "LaunchPermission list \<Rightarrow> string list" where
  "launchPermissionAccts [] = []"
| "launchPermissionAccts (perm # perms) =
     (case PermGroup perm of None \<Rightarrow> [] | Some g \<Rightarrow> [g])
     @ (case PermUserId perm of None \<Rightarrow> [] | Some u \<Rightarrow> [u])
     @ launchPermissionAccts perms"

definition imageSharedTo :: "Provider \<Rightarrow> string \<Rightarrow> string list \<times> error option" where
  "imageSharedTo w ami =
     (case DescribeImageAttribute w ami of
        Inl e \<Rightarrow> ([], Some e)
      | Inr perms \<Rightarrow> (launchPermissionAccts perms, None))"

text \<open>\<open>lcInASGs\<close> and \<open>ltInASGs\<close>: the names of the groups that use the name given.\<close>

fun lcInASGs :: "string \<Rightarrow> AutoScalingGroup list \<Rightarrow> bool \<times> string list" where
  "lcInASGs lcName [] = (False, [])"
| "lcInASGs lcName (asg # allAsgs) =
     (case lcInASGs lcName allAsgs of
        (inASGs, asgNames) \<Rightarrow>
          (if AsgLaunchConfigurationName asg = Some lcName
           then (True, AutoScalingGroupName asg # asgNames)
           else (inASGs, asgNames)))"

fun ltInASGs :: "string \<Rightarrow> AutoScalingGroup list \<Rightarrow> bool \<times> string list" where
  "ltInASGs ltName [] = (False, [])"
| "ltInASGs ltName (asg # allAsgs) =
     (case ltInASGs ltName allAsgs of
        (inASGs, asgNames) \<Rightarrow>
          (if AsgLaunchTemplate asg = Some (Some ltName)
           then (True, AutoScalingGroupName asg # asgNames)
           else (inASGs, asgNames)))"

text \<open>
  The names a list of block device mappings contributes: one for every mapping whose
  snapshot id is the one looked for. In \<open>lcsWithSnapImage\<close> a mapping without \<open>Ebs\<close>
  is skipped.
\<close>

fun lcBdmNames :: "string \<Rightarrow> string \<Rightarrow> BlockDeviceMapping list \<Rightarrow> string list" where
  "lcBdmNames name snapshotId [] = []"
| "lcBdmNames name snapshotId (bdm # bdms) =
     (case Ebs bdm of
        None \<Rightarrow> lcBdmNames name snapshotId bdms
      | Some ebs \<Rightarrow>
          (if EbsSnapshotId ebs = Some snapshotId then [name] else [])
          @ lcBdmNames name snapshotId bdms)"

fun lcsWithSnapImage :: "LaunchConfiguration list \<Rightarrow> string \<Rightarrow> string \<Rightarrow> string list" where
  "lcsWithSnapImage [] snapshotId imageId = []"
| "lcsWithSnapImage (lc # lcs) snapshotId imageId =
     (if LcImageId lc = imageId then [LaunchConfigurationName lc] else [])
     @ lcBdmNames (LaunchConfigurationName lc) snapshotId (LcBlockDeviceMappings lc)
     @ lcsWithSnapImage lcs snapshotId imageId"

text \<open>
  \<open>ltsWithSnapImage\<close> dereferences the image id of the template and the \<open>Ebs\<close> of
  every mapping unchecked: a nil one is a panic.
\<close>

fun ltBdmNames :: "string \<Rightarrow> string \<Rightarrow> BlockDeviceMapping list \<Rightarrow> error + string list" where
  "ltBdmNames name snapshotId [] = Inr []"
| "ltBdmNames name snapshotId (bdm # bdms) =
     (case Ebs bdm of
        None \<Rightarrow> Inl (Panic NilDereference)
      | Some ebs \<Rightarrow>
          (case ltBdmNames name snapshotId bdms of
             Inl e \<Rightarrow> Inl e
           | Inr names \<Rightarrow>
               Inr ((if EbsSnapshotId ebs = Some snapshotId then [name] else []) @ names)))"

fun ltsWithSnapImage :: "LaunchTemplateVersion list \<Rightarrow> string \<Rightarrow> string \<Rightarrow> error + string list" where
  "ltsWithSnapImage [] snapshotId imageId = Inr []"
| "ltsWithSnapImage (lt # lts) snapshotId imageId =
     (case LtImageId lt of
        None \<Rightarrow> Inl (Panic NilDereference)
      | Some img \<Rightarrow>
          (case ltBdmNames (LaunchTemplateName lt) snapshotId (LtBlockDeviceMappings lt) of
             Inl e \<Rightarrow> Inl e
           | Inr bdmNames \<Rightarrow>
               (case ltsWithSnapImage lts snapshotId imageId of
                  Inl e \<Rightarrow> Inl e
                | Inr ltNames \<Rightarrow>
                    Inr ((if img = imageId then [LaunchTemplateName lt] else [])
                         @ bdmNames @ ltNames))))"

section \<open>Correlation: \<open>populateNuggets\<close>\<close>

text \<open>
  The body of the innermost \<open>if\<close> of \<open>populateNuggets\<close>, for the image and the nugget
  at position \<open>i\<close>. The two loops over \<open>snap.LCs\<close> and \<open>snap.LTs\<close> assign
  \<open>snap.ASGs\<close> at every turn. The error of \<open>imageSharedTo\<close> returns from
  \<open>populateNuggets\<close>, after \<open>AMISharedWith\<close> was assigned.
\<close>

definition correlate ::
  "Provider \<Rightarrow> LaunchConfiguration list \<Rightarrow> LaunchTemplateVersion list \<Rightarrow> AutoScalingGroup list \<Rightarrow>
   Image \<Rightarrow> nat \<Rightarrow> Expedition \<Rightarrow> Expedition \<times> error option" where
  "correlate w lcs lts asgs img i expd =
     (let snap = Nuggets expd ! i;
          snapshotId = SnapshotId (Snap snap);
          snap1 = snap\<lparr>AMIIDs := AMIIDs snap @ [ImageId img],
                      LCs := lcsWithSnapImage lcs snapshotId (ImageId img)\<rparr>
      in case ltsWithSnapImage lts snapshotId (ImageId img) of
           Inl e \<Rightarrow> (expd\<lparr>Nuggets := (Nuggets expd)[i := snap1]\<rparr>, Some e)
         | Inr ltNames \<Rightarrow>
             (let snap2 = snap1\<lparr>LTs := ltNames\<rparr>;
                  snap3 = snap2\<lparr>ASGs := fold (\<lambda>lc a. snd (lcInASGs lc asgs)) (LCs snap2) (ASGs snap2)\<rparr>;
                  snap4 = snap3\<lparr>ASGs := fold (\<lambda>lt a. snd (ltInASGs lt asgs)) (LTs snap3) (ASGs snap3)\<rparr>;
                  shared = imageSharedTo w (ImageId img);
                  snap5 = snap4\<lparr>AMISharedWith := fst shared\<rparr>
              in (expd\<lparr>Nuggets := (Nuggets expd)[i := snap5]\<rparr>, snd shared)))"

text \<open>The loop over the block device mappings of one image, for one nugget.\<close>

fun populate_bdms ::
  "Provider \<Rightarrow> LaunchConfiguration list \<Rightarrow> LaunchTemplateVersion list \<Rightarrow> AutoScalingGroup list \<Rightarrow>
   Image \<Rightarrow> nat \<Rightarrow> BlockDeviceMapping list \<Rightarrow> Expedition \<Rightarrow> Expedition \<times> error option" where
  "populate_bdms w lcs lts asgs img i [] expd = (expd, None)"
| "populate_bdms w lcs lts asgs img i (bdm # bdms) expd =
     (case Ebs bdm of
        None \<Rightarrow> populate_bdms w lcs lts asgs img i bdms expd
      | Some ebs \<Rightarrow>
          (case EbsSnapshotId ebs of
             None \<Rightarrow> populate_bdms w lcs lts asgs img i bdms expd
           | Some sid \<Rightarrow>
               (if SnapshotId (Snap (Nuggets expd ! i)) = sid
                then (case correlate w lcs lts asgs img i expd of
                        (expd', Some e) \<Rightarrow> (expd', Some e)
                      | (expd', None) \<Rightarrow> populate_bdms w lcs lts asgs img i bdms expd')
                else populate_bdms w lcs lts asgs img i bdms expd)))"

text \<open>The loop over the nuggets (by position), for one image.\<close>

fun populate_snaps ::
  "Provider \<Rightarrow> LaunchConfiguration list \<Rightarrow> LaunchTemplateVersion list \<Rightarrow> AutoScalingGroup list \<Rightarrow>
   Image \<Rightarrow> nat list \<Rightarrow> Expedition \<Rightarrow> Expedition \<times> error option" where
  "populate_snaps w lcs lts asgs img [] expd = (expd, None)"
| "populate_snaps w lcs lts asgs img (i # rest) expd =
     (case populate_bdms w lcs lts asgs img i (BlockDeviceMappings img) expd of
        (expd', Some e) \<Rightarrow> (expd', Some e)
      | (expd', None) \<Rightarrow> populate_snaps w lcs lts asgs img rest expd')"

text \<open>The loop over the images.\<close>

fun populate_images ::
  "Provider \<Rightarrow> LaunchConfiguration list \<Rightarrow> LaunchTemplateVersion list \<Rightarrow> AutoScalingGroup list \<Rightarrow>
   Image list \<Rightarrow> Expedition \<Rightarrow> Expedition \<times> error option" where
  "populate_images w lcs lts asgs [] expd = (expd, None)"
| "populate_images w lcs lts asgs (img # images) expd =
     (case populate_snaps w lcs lts asgs img [0..<length (Nuggets expd)] expd of
        (expd', Some e) \<Rightarrow> (expd', Some e)
      | (expd', None) \<Rightarrow> populate_images w lcs lts asgs images expd')"

definition populateNuggets :: "Provider \<Rightarrow> Expedition \<Rightarrow> Expedition \<times> error option" where
  "populateNuggets w expd =
     (case describeLaunchConfigurations w of
        Inl e \<Rightarrow> (expd, Some e)
      | Inr lcs \<Rightarrow>
     (case describeLaunchTemplates w of
        Inl e \<Rightarrow> (expd, Some e)
      | Inr lts \<Rightarrow>
     (case describeImagesOwnedByThisAccount w of
        Inl e \<Rightarrow> (expd, Some e)
      | Inr images \<Rightarrow>
     (case describeASGs w of
        Inl e \<Rightarrow> (expd, Some e)
      | Inr asgs \<Rightarrow> populate_images w lcs lts asgs images expd))))"

section \<open>Snapshot intake: \<open>getSnapshots\<close>, \<open>buildNuggets\<close>, \<open>describeVolumes\<close>\<close>

text \<open>
  The package runs one \<open>buildNuggets\<close> goroutine per page and one \<open>describeVolumes\<close>
  goroutine per batch; they append to \<open>exp.realVols\<close> and \<open>exp.Nuggets\<close> without a
  lock. The model is one schedule of them: every task runs to its end when it is
  spawned, pages and batches in order. Runs in which concurrent appends lose or reorder
  entries are not covered. \<open>getSnapshots\<close> returns a failed listing before it waits for
  the tasks, so the nuggets held at that moment depend on the schedule; the statements
  below about a failed run speak of the error returned and of the fields no task
  writes (the plan sequences and the recommendations), and those about the number of
  pages of the callback alone.

  \<open>describeVolumes\<close> takes the answer of the provider for one volume id at a time and
  drops the error (\<open>r, _ := svc.DescribeVolumes(&dvi)\<close>); the SDK returns an output
  without volumes next to an error.
\<close>

definition describeVolume :: "(string \<Rightarrow> error + string list) \<Rightarrow> string \<Rightarrow> string list" where
  "describeVolume dv vol = (case dv vol of Inl e \<Rightarrow> [] | Inr vols \<Rightarrow> vols)"

definition describeVolumes ::
  "(string \<Rightarrow> error + string list) \<Rightarrow> string list \<Rightarrow> Expedition \<Rightarrow> Expedition" where
  "describeVolumes dv inVols expd =
     fold (\<lambda>vol e. e\<lparr>realVols := realVols e @ describeVolume dv vol\<rparr>) inVols expd"

text \<open>The nugget \<open>Nugget{Snap: snap}\<close>: every other field has its zero value.\<close>

definition newNugget :: "Snapshot \<Rightarrow> Nugget" where
  "newNugget snap =
     \<lparr>Snap = snap, HasVol = False, AMIIDs = [], AMISharedWith = [], LCs = [], LTs = [],
      ASGs = [], parentBar = None\<rparr>"

text \<open>The two nested loops of \<open>buildNuggets\<close> that set \<open>HasVol\<close>.\<close>

definition markHasVol :: "string list \<Rightarrow> Nugget list \<Rightarrow> Nugget list" where
  "markHasVol vols nuggets =
     fold (\<lambda>vol nugs.
             map (\<lambda>nug. if vol = VolumeId (Snap nug) then nug\<lparr>HasVol := True\<rparr> else nug) nugs)
       vols nuggets"

text \<open>\<open>buildNuggets\<close> for one page; a zero batch size is the panic of the partitioning.\<close>

definition buildNuggets ::
  "(string \<Rightarrow> error + string list) \<Rightarrow> Snapshot list \<Rightarrow> Expedition \<Rightarrow> Expedition \<times> error option" where
  "buildNuggets dv page expd =
     (let inVols = map VolumeId page;
          nuggets = map newNugget page;
          inVolsD = dedupeStringPointer inVols
      in case makeBatchesStringPointer inVolsD (volBatchSize expd) of
           Inl e \<Rightarrow> (expd, Some e)
         | Inr batchVols \<Rightarrow>
             (let expd1 = fold (describeVolumes dv) batchVols expd;
                  nuggets1 = markHasVol (realVols expd1) nuggets
              in (expd1\<lparr>Nuggets := Nuggets expd1 @ nuggets1\<rparr>, None)))"

text \<open>
  The callback of \<open>DescribeSnapshotsPages\<close> for one page: the new page number, the
  expedition after the page, and the value returned to the paginator (whether to go on).
\<close>

definition snapshotPage ::
  "(string \<Rightarrow> error + string list) \<Rightarrow> Snapshot list \<Rightarrow> int \<Rightarrow> Expedition \<Rightarrow>
   (int \<times> Expedition \<times> error option) \<times> bool" where
  "snapshotPage dv page pageNum expd =
     (let pageNum1 = pageNum + 1;
          filteredSnapshots = filter (\<lambda>snap. StartTime snap < cutoffDate expd) page;
          built = (if length filteredSnapshots > 0 then buildNuggets dv filteredSnapshots expd
                   else (expd, None))
      in ((pageNum1, fst built, snd built), pageNum1 \<le> maxPages expd))"

text \<open>
  The paginator of the SDK: it requests page after page, hands each to the callback, and
  stops when a request fails (the error is returned), when there is no next page, or
  when the callback returns false. The result carries the number of pages the callback
  has consumed.
\<close>

fun snapshotPages ::
  "(string \<Rightarrow> error + string list) \<Rightarrow> Snapshot Pages \<Rightarrow> int \<Rightarrow> Expedition \<Rightarrow>
   int \<times> Expedition \<times> error option" where
  "snapshotPages dv (Fail e) pageNum expd = (pageNum, expd, Some e)"
| "snapshotPages dv (Last page) pageNum expd = fst (snapshotPage dv page pageNum expd)"
| "snapshotPages dv (More page rest) pageNum expd =
     (case snapshotPage dv page pageNum expd of
        ((pageNum1, expd1, Some e), continue) \<Rightarrow> (pageNum1, expd1, Some e)
      | ((pageNum1, expd1, None), continue) \<Rightarrow>
          (if continue then snapshotPages dv rest pageNum1 expd1 else (pageNum1, expd1, None)))"

definition getSnapshots :: "Provider \<Rightarrow> Expedition \<Rightarrow> Expedition \<times> error option" where
  "getSnapshots w expd =
     snd (snapshotPages (DescribeVolumes w)
            (DescribeSnapshots w (account expd) (pageSize expd)) 0 expd)"

section \<open>\<open>Start\<close>\<close>

definition setDateFilter :: "Provider \<Rightarrow> string \<Rightarrow> Expedition \<Rightarrow> Expedition \<times> error option" where
  "setDateFilter w datestring expd =
     (expd\<lparr>cutoffDate := fst (timeParse w datestring)\<rparr>, snd (timeParse w datestring))"

definition getAccountNumber :: "Provider \<Rightarrow> Expedition \<Rightarrow> Expedition \<times> error option" where
  "getAccountNumber w expd =
     (case GetCallerIdentity w of
        Inl e \<Rightarrow> (expd, Some e)
      | Inr acct \<Rightarrow> (expd\<lparr>account := acct\<rparr>, None))"

definition Start :: "Provider \<Rightarrow> Expedition \<Rightarrow> Expedition \<times> error option" where
  "Start w expd =
     (case setDateFilter w (dateFilter expd) expd of
        (e1, Some err) \<Rightarrow> (e1, Some err)
      | (e1, None) \<Rightarrow>
     (case getAccountNumber w e1 of
        (e2, Some err) \<Rightarrow> (e2, Some err)
      | (e2, None) \<Rightarrow>
     (case getSnapshots w e2 of
        (e3, Some err) \<Rightarrow> (e3, Some err)
      | (e3, None) \<Rightarrow>
     (case populateNuggets w e3 of
        (e4, Some err) \<Rightarrow> (e4, Some err)
      | (e4, None) \<Rightarrow>
     (case setRecommendations (addBars e4) of
        Inl err \<Rightarrow> (addBars e4, Some err)
      | Inr e5 \<Rightarrow> (e5, None))))))"

section \<open>Notions used in the statements and proofs\<close>

text \<open>
  The claim's notion of a deletable record, read on a state after aggregation: the
  group of the record (the bar \<open>parentBar\<close> points to) has no volume, and the record has
  no autoscaling group and is shared with no account.
\<close>

definition deletableRecord :: "Expedition \<Rightarrow> nat \<Rightarrow> bool" where
  "deletableRecord e i =
     (case parentBar (Nuggets e ! i) of
        None \<Rightarrow> False
      | Some k \<Rightarrow> \<not> BarHasVol (Bars e ! k) \<and> ASGs (Nuggets e ! i) = []
                  \<and> AMISharedWith (Nuggets e ! i) = [])"

text \<open>The test of the inner loop of \<open>setRecommendations\<close> on one nugget.\<close>

definition deletableNugget :: "Nugget \<Rightarrow> bool" where
  "deletableNugget nug \<longleftrightarrow> length (ASGs nug) = 0 \<and> length (AMISharedWith nug) = 0"

text \<open>
  The members, in order, of the bars without a volume that pass that test: the nuggets
  the first loop of \<open>setRecommendations\<close> appends for.
\<close>

definition deletableMembers :: "Nugget list \<Rightarrow> Bar list \<Rightarrow> nat list" where
  "deletableMembers nugs bars =
     filter (\<lambda>n. deletableNugget (nugs ! n))
       (concat (map BarNuggets (filter (\<lambda>bar. \<not> BarHasVol bar) bars)))"

text \<open>What the loop of \<open>addBar\<close> does to one bar.\<close>

definition addMember :: "string \<Rightarrow> nat \<Rightarrow> Bar \<Rightarrow> Bar" where
  "addMember vol n bar =
     (if BarVolumeId bar = vol then bar\<lparr>BarNuggets := BarNuggets bar @ [n]\<rparr> else bar)"

text \<open>
  The invariant of \<open>addBars\<close> after the first \<open>m\<close> nuggets of the input \<open>ns\<close>: the
  nuggets are the input with \<open>parentBar\<close> set, no two bars share a volume id, the members
  of a bar are the positions below \<open>m\<close> with its volume id, in order, its \<open>HasVol\<close> is
  that of its first member, and \<open>parentBar\<close> of every nugget below \<open>m\<close> is the bar with
  its volume id.
\<close>

definition aggInv :: "Nugget list \<Rightarrow> nat \<Rightarrow> Expedition \<Rightarrow> bool" where
  "aggInv ns m e \<longleftrightarrow>
     length (Nuggets e) = length ns
   \<and> (\<forall>i < length ns. Nuggets e ! i = (ns ! i)\<lparr>parentBar := parentBar (Nuggets e ! i)\<rparr>)
   \<and> distinct (map BarVolumeId (Bars e))
   \<and> (\<forall>b \<in> set (Bars e).
         BarNuggets b = filter (\<lambda>i. VolumeId (Snap (ns ! i)) = BarVolumeId b) [0..<m]
       \<and> BarNuggets b \<noteq> []
       \<and> BarHasVol b = HasVol (ns ! hd (BarNuggets b)))
   \<and> (\<forall>i < m. \<exists>k < length (Bars e).
         parentBar (Nuggets e ! i) = Some k
       \<and> BarVolumeId (Bars e ! k) = VolumeId (Snap (ns ! i)))"

text \<open>
  The fields that the stages of \<open>Start\<close> before \<open>addBars\<close> leave alone: the bars, the
  four plan sequences and the recommendations.
\<close>

definition planFrame :: "Expedition \<Rightarrow> Expedition \<Rightarrow> bool" where
  "planFrame e e' \<longleftrightarrow>
     Bars e' = Bars e \<and> LtsToDelete e' = LtsToDelete e \<and> LcsToDelete e' = LcsToDelete e
   \<and> AmiToDelete e' = AmiToDelete e \<and> SnapToDelete e' = SnapToDelete e
   \<and> recommendations e' = recommendations e"

text \<open>
  The number of pages a paginated listing hands out before one of its requests fails,
  with the error of that request; \<open>None\<close> when no request fails.
\<close>

fun failsAfter :: "'a Pages \<Rightarrow> (nat \<times> error) option" where
  "failsAfter (Fail e) = Some (0, e)"
| "failsAfter (Last page) = None"
| "failsAfter (More page rest) =
     (case failsAfter rest of None \<Rightarrow> None | Some (k, e) \<Rightarrow> Some (Suc k, e))"

text \<open>
  An image maps a snapshot when one of its block device mappings names the snapshot id:
  the test of \<open>populateNuggets\<close>. \<open>mapped\<close>: the image maps the snapshot of some
  nugget of the expedition.
\<close>

definition mapsSnapshot :: "Image \<Rightarrow> string \<Rightarrow> bool" where
  "mapsSnapshot img sid =
     list_ex (\<lambda>bdm. case Ebs bdm of None \<Rightarrow> False | Some ebs \<Rightarrow> EbsSnapshotId ebs = Some sid)
       (BlockDeviceMappings img)"

definition mapped :: "Image \<Rightarrow> Expedition \<Rightarrow> bool" where
  "mapped img e = list_ex (\<lambda>nug. mapsSnapshot img (SnapshotId (Snap nug))) (Nuggets e)"

text \<open>The error, if any, of the provider call that looks up the accounts an image is shared with.\<close>

definition sharingError :: "Provider \<Rightarrow> Image \<Rightarrow> error option" where
  "sharingError w img =
     (case DescribeImageAttribute w (ImageId img) of Inl e \<Rightarrow> Some e | Inr perms \<Rightarrow> None)"

text \<open>
  The provider that answers a lookup of a volume that is not found with an empty result
  instead of the error \<open>InvalidVolume.NotFound\<close>, and otherwise as \<open>w\<close> does.
\<close>

definition ignoreNotFound :: "Provider \<Rightarrow> Provider" where
  "ignoreNotFound w =
     w\<lparr>DescribeVolumes :=
         (\<lambda>vol. if DescribeVolumes w vol = Inl (Error ''InvalidVolume.NotFound'') then Inr []
                 else DescribeVolumes w vol)\<rparr>"

section \<open>Example runs\<close>

text \<open>
  Concrete inputs on which the definitions are evaluated. \<open>exInput\<close> asks for every
  default. \<open>exState\<close> is an expedition made by \<open>New exInput\<close> with the fields that a
  run changes as parameters.
\<close>

definition exInput :: ExpeditionInput where
  "exInput =
     \<lparr>Session = Some AwsSession, MaxPages = None, PageSize = None, VolumeBatchSize = None,
      DateFilter = None, OutfileRecommendations = None, OutfileNuggets = None,
      OutfileBars = None, Logger = Some Log15Logger, EbsSnapRate = None\<rparr>"

definition exState ::
  "Bar list \<Rightarrow> Nugget list \<Rightarrow> string list \<Rightarrow> string list \<Rightarrow> string list \<Rightarrow> string list \<Rightarrow>
   string \<Rightarrow> time \<Rightarrow> string list \<Rightarrow> line list \<Rightarrow> Expedition" where
  "exState bars nuggets lts lcs ami snaps acct cutoff vols recs =
     \<lparr>Bars = bars, Nuggets = nuggets, LtsToDelete = lts, LcsToDelete = lcs, AmiToDelete = ami,
      SnapToDelete = snaps, account = acct, cutoffDate = cutoff, maxPages = 25,
      pageSize = 500, volBatchSize = 30, session = Some AwsSession, realVols = vols,
      logger = Some Log15Logger, ebsSnapRate = 1 / 20, dateFilter = ''2019-01-01'',
      outfileRecommendations = ''out-summary.txt'', outfileNuggets = ''out-nuggets.csv'',
      outfileBars = ''out-bars.csv'', recommendations = recs\<rparr>"

text \<open>A snapshot taken before the cutoff date of the examples (time stamp 100).\<close>

definition exSnapshot :: "string \<Rightarrow> string \<Rightarrow> 64 word \<Rightarrow> Snapshot" where
  "exSnapshot sid vol gb = \<lparr>SnapshotId = sid, VolumeId = vol, VolumeSize = gb, StartTime = 50\<rparr>"

definition exNugget ::
  "Snapshot \<Rightarrow> bool \<Rightarrow> string list \<Rightarrow> string list \<Rightarrow> string list \<Rightarrow> string list \<Rightarrow>
   string list \<Rightarrow> nat option \<Rightarrow> Nugget" where
  "exNugget snap hasVol amis shared lcs lts asgs parent =
     \<lparr>Snap = snap, HasVol = hasVol, AMIIDs = amis, AMISharedWith = shared, LCs = lcs,
      LTs = lts, ASGs = asgs, parentBar = parent\<rparr>"

definition exBdm :: "string \<Rightarrow> BlockDeviceMapping" where
  "exBdm sid = \<lparr>Ebs = Some \<lparr>EbsSnapshotId = Some sid\<rparr>\<rparr>"

text \<open>
  An account with three snapshots on one page: \<open>snap-A\<close> of the deleted volume
  \<open>vol-1\<close> (20 GB), used nowhere; \<open>snap-B\<close> of the deleted volume \<open>vol-4\<close>, mapped
  into the image \<open>ami-1\<close>, which the launch configuration \<open>lc-1\<close> of the autoscaling
  group \<open>asg-1\<close> uses; \<open>snap-C\<close> of the volume \<open>vol-2\<close>, which exists. Describing
  \<open>vol-1\<close> or \<open>vol-4\<close> fails: the provider reports that the volume is not found.
\<close>

definition exProvider :: Provider where
  "exProvider =
     \<lparr>timeParse = (\<lambda>s. (100, None)),
      GetCallerIdentity = Inr ''123456789012'',
      DescribeSnapshots = (\<lambda>owner n.
         Last [exSnapshot ''snap-A'' ''vol-1'' 20, exSnapshot ''snap-B'' ''vol-4'' 8,
               exSnapshot ''snap-C'' ''vol-2'' 30]),
      DescribeVolumes = (\<lambda>vol. if vol = ''vol-2'' then Inr [''vol-2'']
                                else Inl (Error ''InvalidVolume.NotFound'')),
      DescribeImages = (\<lambda>owner. Inr [\<lparr>ImageId = ''ami-1'', BlockDeviceMappings = [exBdm ''snap-B'']\<rparr>]),
      DescribeImageAttribute = (\<lambda>ami. Inr []),
      DescribeLaunchConfigurations =
         Last [\<lparr>LaunchConfigurationName = ''lc-1'', LcImageId = ''ami-1'',
                LcBlockDeviceMappings = []\<rparr>],
      DescribeLaunchTemplateVersions = Last [],
      DescribeAutoScalingGroups =
         Last [\<lparr>AutoScalingGroupName = ''asg-1'', AsgLaunchConfigurationName = Some ''lc-1'',
                AsgLaunchTemplate = None\<rparr>]\<rparr>"

text \<open>The nuggets of that account after intake, after correlation and after aggregation.\<close>

definition exNuggets1 :: "Nugget list" where
  "exNuggets1 =
     [exNugget (exSnapshot ''snap-A'' ''vol-1'' 20) False [] [] [] [] [] None,
      exNugget (exSnapshot ''snap-B'' ''vol-4'' 8) False [] [] [] [] [] None,
      exNugget (exSnapshot ''snap-C'' ''vol-2'' 30) True [] [] [] [] [] None]"

definition exNuggets2 :: "Nugget list" where
  "exNuggets2 =
     [exNugget (exSnapshot ''snap-A'' ''vol-1'' 20) False [] [] [] [] [] None,
      exNugget (exSnapshot ''snap-B'' ''vol-4'' 8) False [''ami-1''] [] [''lc-1''] [] [''asg-1''] None,
      exNugget (exSnapshot ''snap-C'' ''vol-2'' 30) True [] [] [] [] [] None]"

definition exNuggets3 :: "Nugget list" where
  "exNuggets3 =
     [exNugget (exSnapshot ''snap-A'' ''vol-1'' 20) False [] [] [] [] [] (Some 0),
      exNugget (exSnapshot ''snap-B'' ''vol-4'' 8) False [''ami-1''] [] [''lc-1''] [] [''asg-1'']
        (Some 1),
      exNugget (exSnapshot ''snap-C'' ''vol-2'' 30) True [] [] [] [] [] (Some 2)]"

definition exBars :: "Bar list" where
  "exBars =
     [\<lparr>BarVolumeId = ''vol-1'', BarNuggets = [0], BarHasVol = False\<rparr>,
      \<lparr>BarVolumeId = ''vol-4'', BarNuggets = [1], BarHasVol = False\<rparr>,
      \<lparr>BarVolumeId = ''vol-2'', BarNuggets = [2], BarHasVol = True\<rparr>]"

text \<open>The expedition at the end of the run on that account.\<close>

definition exFinal :: Expedition where
  "exFinal =
     exState exBars exNuggets3 [] [] [] [''snap-A''] ''123456789012'' 100 [''vol-2'']
       [IntroLine 1 ''2019-01-01'', CaveatLine, LtHeader, LcHeader, AmiHeader, SnapHeader,
        Item ''snap-A'', SparedHasVolLine 1, SparedAsgShareLine 1, CostLine 20 (1 / 20) 1]"

text \<open>
  Two snapshots of the deleted volume \<open>vol-3\<close>, 20 GB each, used nowhere, with the
  \<open>HasVol\<close> flags given; and three snapshots of which the first and the last share
  \<open>vol-3\<close>. \<open>exAggregate\<close> aggregates a collection of nuggets.
\<close>

definition exPair :: "bool \<Rightarrow> bool \<Rightarrow> Nugget list" where
  "exPair hasVol1 hasVol2 =
     [exNugget (exSnapshot ''snap-D'' ''vol-3'' 20) hasVol1 [] [] [] [] [] None,
      exNugget (exSnapshot ''snap-E'' ''vol-3'' 20) hasVol2 [] [] [] [] [] None]"

definition exTrio :: "Nugget list" where
  "exTrio =
     [exNugget (exSnapshot ''snap-D'' ''vol-3'' 20) False [] [] [] [] [] None,
      exNugget (exSnapshot ''snap-A'' ''vol-1'' 20) False [] [] [] [] [] None,
      exNugget (exSnapshot ''snap-E'' ''vol-3'' 20) False [] [] [] [] [] None]"

definition exAggregate :: "Nugget list \<Rightarrow> Expedition" where
  "exAggregate nuggets = addBars (exState [] nuggets [] [] [] [] ''123456789012'' 100 [] [])"

text \<open>
  The three snapshots of \<open>exProvider\<close> on three pages of one snapshot each, an
  expedition with a given page cap, and the provider that lists them so.
\<close>

definition exPages :: "Snapshot Pages" where
  "exPages = More [exSnapshot ''snap-A'' ''vol-1'' 20]
               (More [exSnapshot ''snap-B'' ''vol-4'' 8]
                  (Last [exSnapshot ''snap-C'' ''vol-2'' 30]))"

definition exCapped :: "int \<Rightarrow> Expedition" where
  "exCapped cap = (exState [] [] [] [] [] [] ''123456789012'' 100 [] [])\<lparr>maxPages := cap\<rparr>"

definition exProviderPaged :: Provider where
  "exProviderPaged = exProvider\<lparr>DescribeSnapshots := (\<lambda>owner n. exPages)\<rparr>"

text \<open>
  The account of \<open>exProvider\<close> with a second launch configuration \<open>lc-2\<close> on the
  image \<open>ami-1\<close>, used by no autoscaling group; and the nuggets after correlation
  there.
\<close>

definition exProviderTwoLcs :: Provider where
  "exProviderTwoLcs = exProvider\<lparr>DescribeLaunchConfigurations :=
       Last [\<lparr>LaunchConfigurationName = ''lc-1'', LcImageId = ''ami-1'',
              LcBlockDeviceMappings = []\<rparr>,
             \<lparr>LaunchConfigurationName = ''lc-2'', LcImageId = ''ami-1'',
              LcBlockDeviceMappings = []\<rparr>]\<rparr>"

definition exNuggetsTwoLcs :: "Nugget list" where
  "exNuggetsTwoLcs =
     [exNugget (exSnapshot ''snap-A'' ''vol-1'' 20) False [] [] [] [] [] None,
      exNugget (exSnapshot ''snap-B'' ''vol-4'' 8) False [''ami-1''] [] [''lc-1'', ''lc-2''] [] [] None,
      exNugget (exSnapshot ''snap-C'' ''vol-2'' 30) True [] [] [] [] [] None]"

text \<open>
  The account of \<open>exProvider\<close> where the provider call named is throttled: the
  listings of the snapshots and of the autoscaling groups at their second request,
  after a first page, the other calls at once.
\<close>

definition exProviderFailing :: "string \<Rightarrow> Provider" where
  "exProviderFailing call =
     exProvider
       \<lparr>DescribeSnapshots :=
          (\<lambda>owner n. if call = ''DescribeSnapshots''
                      then More [exSnapshot ''snap-A'' ''vol-1'' 20]
                             (Fail (Error ''RequestLimitExceeded''))
                      else DescribeSnapshots exProvider owner n),
        DescribeImages :=
          (\<lambda>owner. if call = ''DescribeImages'' then Inl (Error ''RequestLimitExceeded'')
                    else DescribeImages exProvider owner),
        DescribeImageAttribute :=
          (\<lambda>ami. if call = ''DescribeImageAttribute'' then Inl (Error ''RequestLimitExceeded'')
                  else DescribeImageAttribute exProvider ami),
        DescribeLaunchConfigurations :=
          (if call = ''DescribeLaunchConfigurations'' then Fail (Error ''RequestLimitExceeded'')
           else DescribeLaunchConfigurations exProvider),
        DescribeLaunchTemplateVersions :=
          (if call = ''DescribeLaunchTemplateVersions'' then Fail (Error ''RequestLimitExceeded'')
           else DescribeLaunchTemplateVersions exProvider),
        DescribeAutoScalingGroups :=
          (if call = ''DescribeAutoScalingGroups''
           then More [\<lparr>AutoScalingGroupName = ''asg-1'',
                        AsgLaunchConfigurationName = Some ''lc-1'', AsgLaunchTemplate = None\<rparr>]
                  (Fail (Error ''RequestLimitExceeded''))
           else DescribeAutoScalingGroups exProvider)\<rparr>"

text \<open>
  A run with \<open>VolumeBatchSize = -2\<close> on an account whose snapshots come on two pages:
  \<open>snap-D\<close> of \<open>vol-3\<close> and \<open>snap-X\<close> of the deleted volume \<open>vol-5\<close> on the
  first, \<open>snap-E\<close> of \<open>vol-3\<close> on the second. The volume \<open>vol-3\<close> exists. With
  that batch size the two volume ids of the first page make no batch and are not looked
  up; the one volume id of the second page makes a batch and is. \<open>exSharedState\<close> is
  the expedition of that run with the fields it changes as parameters.
\<close>

definition exProviderShared :: Provider where
  "exProviderShared =
     exProvider
       \<lparr>DescribeSnapshots := (\<lambda>owner n.
          More [exSnapshot ''snap-D'' ''vol-3'' 20, exSnapshot ''snap-X'' ''vol-5'' 8]
            (Last [exSnapshot ''snap-E'' ''vol-3'' 20])),
        DescribeVolumes := (\<lambda>vol. if vol = ''vol-3'' then Inr [''vol-3'']
                                  else Inl (Error ''InvalidVolume.NotFound''))\<rparr>"

definition exSharedState ::
  "Bar list \<Rightarrow> Nugget list \<Rightarrow> string list \<Rightarrow> string \<Rightarrow> time \<Rightarrow> string list \<Rightarrow> line list \<Rightarrow>
   Expedition" where
  "exSharedState bars nuggets snaps acct cutoff vols recs =
     (exState bars nuggets [] [] [] snaps acct cutoff vols recs)\<lparr>volBatchSize := - 2\<rparr>"

definition exSharedNuggets :: "nat option \<Rightarrow> nat option \<Rightarrow> Nugget list" where
  "exSharedNuggets p q =
     [exNugget (exSnapshot ''snap-D'' ''vol-3'' 20) False [] [] [] [] [] p,
      exNugget (exSnapshot ''snap-X'' ''vol-5'' 8) False [] [] [] [] [] q,
      exNugget (exSnapshot ''snap-E'' ''vol-3'' 20) True [] [] [] [] [] p]"

definition exSharedBars :: "Bar list" where
  "exSharedBars =
     [\<lparr>BarVolumeId = ''vol-3'', BarNuggets = [0, 2], BarHasVol = False\<rparr>,
      \<lparr>BarVolumeId = ''vol-5'', BarNuggets = [1], BarHasVol = False\<rparr>]"

definition exSharedFinal :: Expedition where
  "exSharedFinal =
     exSharedState exSharedBars (exSharedNuggets (Some 0) (Some 1))
       [''snap-D'', ''snap-E'', ''snap-X''] ''123456789012'' 100 [''vol-3'']
       [IntroLine 3 ''2019-01-01'', CaveatLine, LtHeader, LcHeader, AmiHeader, SnapHeader,
        Item ''snap-D'', Item ''snap-E'', Item ''snap-X'', SparedHasVolLine 0,
        SparedAsgShareLine 0, CostLine 48 (1 / 20) (12 / 5)]"

section \<open>Theorems\<close>

lemma containsString_iff: "containsString xs s \<longleftrightarrow> s \<in> set xs"
  by (induction xs) auto


lemma dedupeString_loop_index:
  "dedupeString_loop acc ys =
     acc @ map (nth ys) (filter (\<lambda>i. ys ! i \<notin> set acc \<union> set (take i ys)) [0..<length ys])"
proof (induction ys arbitrary: acc)
  case Nil
  then show ?case by simp
next
  case (Cons y ys)
  have upt: "[0..<length (y # ys)] = 0 # map Suc [0..<length ys]"
    by (simp add: upt_conv_Cons map_Suc_upt del: upt_Suc)
  show ?case
    unfolding upt
    by (auto simp add: Cons.IH containsString_iff filter_map o_def simp del: upt_Suc
          intro!: arg_cong [where f = "map ((!) ys)"] filter_cong) 
qed

lemma dedupeString_loop_set: "set (dedupeString_loop acc ys) = set acc \<union> set ys"
  by (induction ys arbitrary: acc) (auto simp: containsString_iff)

lemma dedupeString_loop_distinct: "distinct acc \<Longrightarrow> distinct (dedupeString_loop acc ys)"
  by (induction ys arbitrary: acc) (auto simp: containsString_iff)

lemma dedupeString_loop_fixed:
  "distinct ys \<Longrightarrow> set acc \<inter> set ys = {} \<Longrightarrow> dedupeString_loop acc ys = acc @ ys"
  by (induction ys arbitrary: acc) (auto simp: containsString_iff)

text \<open>
  Claim C9. Deduplication keeps, in the original order, exactly the elements that do not
  occur earlier in the sequence (the first occurrence of each element); the result has no
  duplicates and the same elements as the input; and deduplicating an already deduplicated
  sequence gives the same sequence.
\<close>

theorem dedupeString_first_occurrence_idempotent:
  "dedupeString xs = map (nth xs) (filter (\<lambda>i. xs ! i \<notin> set (take i xs)) [0..<length xs])
   \<and> distinct (dedupeString xs)
   \<and> set (dedupeString xs) = set xs
   \<and> dedupeString (dedupeString xs) = dedupeString xs"
proof -
  have d: "distinct (dedupeString xs)"
    by (simp add: dedupeString_def dedupeString_loop_distinct)
  have "dedupeString (dedupeString xs) = dedupeString xs"
    using dedupeString_loop_fixed [OF d, of "[]"] by (simp add: dedupeString_def)
  moreover have "dedupeString xs =
      map (nth xs) (filter (\<lambda>i. xs ! i \<notin> set (take i xs)) [0..<length xs])"
    using dedupeString_loop_index [of "[]" xs] by (simp add: dedupeString_def)
  moreover have "set (dedupeString xs) = set xs"
    by (simp add: dedupeString_def dedupeString_loop_set)
  ultimately show ?thesis using d by blast
qed

theorem dedupeString_first_occurrence_idempotent_witness: "dedupeString [''a'', ''b'', ''a'', ''c'', ''b''] = [''a'', ''b'', ''c'']
  \<and> dedupeString (dedupeString [''a'', ''b'', ''a'', ''c'', ''b'']) = [''a'', ''b'', ''c'']"
  using dedupeString_first_occurrence_idempotent [of "[''a'', ''b'', ''a'', ''c'', ''b'']"]
  by (simp add: dedupeString_def)



lemma go_slice_full:
  assumes "0 < B" "1 \<le> i" "i * B \<le> int (length xs)"
  shows "go_slice xs (if i = 1 then 0 else B * (i - 1)) (i * B)
           = Inr (take (nat B) (drop (nat ((i - 1) * B)) xs))"
proof -
  have "B * (i - 1) \<le> i * B" using assms by (simp add: algebra_simps)
  moreover have "0 \<le> B * (i - 1)" using assms by simp
  moreover have "i * B - B * (i - 1) = B" by (simp add: algebra_simps)
  ultimately show ?thesis using assms
    by (auto simp: go_slice_def mult.commute)
qed

lemma makeBatches_full_inv:
  assumes "0 < B" "1 \<le> i" "i \<le> nb + 1" "nb * B \<le> int (length xs)"
  shows "\<exists>bs. makeBatches_full xs B nb i acc = Inr (acc @ bs)
            \<and> concat bs = take (nat ((nb + 1 - i) * B)) (drop (nat ((i - 1) * B)) xs)
            \<and> length bs = nat (nb + 1 - i)
            \<and> (\<forall>b \<in> set bs. length b = nat B)"
  using assms
proof (induction xs B nb i acc rule: makeBatches_full.induct)
  case (1 xs B nb i acc)
  show ?case
  proof (cases "i \<le> nb")
    case False
    with "1.prems" have "i = nb + 1" by simp
    then show ?thesis by (simp add: makeBatches_full.simps [of xs B nb i acc])
  next
    case True
    have iB: "i * B \<le> int (length xs)"
    proof -
      have "i * B \<le> nb * B" using True "1.prems"(1) by (simp add: mult_right_mono)
      then show ?thesis using "1.prems"(4) by linarith
    qed
    define b where "b = take (nat B) (drop (nat ((i - 1) * B)) xs)"
    have sl: "go_slice xs (if i = 1 then 0 else B * (i - 1)) (i * B) = Inr b"
      unfolding b_def using go_slice_full [OF "1.prems"(1) "1.prems"(2) iB] .
    have lenb: "length b = nat B"
    proof -
      have "(i - 1) * B + B \<le> int (length xs)" using iB by (simp add: algebra_simps)
      moreover have "0 \<le> (i - 1) * B" using "1.prems" by simp
      ultimately have "nat ((i - 1) * B) + nat B \<le> length xs" using "1.prems"(1) by linarith
      then show ?thesis by (simp add: b_def)
    qed
    from "1.IH" [OF True refl refl sl] "1.prems" True
    obtain bs where bs: "makeBatches_full xs B nb (i + 1) (acc @ [b]) = Inr ((acc @ [b]) @ bs)"
       "concat bs = take (nat ((nb + 1 - (i + 1)) * B)) (drop (nat ((i + 1 - 1) * B)) xs)"
       "length bs = nat (nb + 1 - (i + 1))" "\<forall>c \<in> set bs. length c = nat B"
      by auto
    have res: "makeBatches_full xs B nb i acc = Inr (acc @ (b # bs))"
      using True sl bs(1) by (simp add: makeBatches_full.simps [of xs B nb i acc] Let_def)
    have n1: "nat ((nb + 1 - i) * B) = nat B + nat ((nb - i) * B)"
    proof -
      have "(nb + 1 - i) * B = B + (nb - i) * B" by (simp add: algebra_simps)
      moreover have "0 \<le> (nb - i) * B" using True "1.prems"(1) by simp
      ultimately show ?thesis using "1.prems"(1) by (simp add: nat_add_distrib)
    qed
    have n2: "nat (i * B) = nat ((i - 1) * B) + nat B"
    proof -
      have "i * B = (i - 1) * B + B" by (simp add: algebra_simps)
      moreover have "0 \<le> (i - 1) * B" using "1.prems"(1,2) by simp
      ultimately show ?thesis using "1.prems"(1) by (simp add: nat_add_distrib)
    qed
    have "concat bs = take (nat ((nb - i) * B)) (drop (nat B) (drop (nat ((i - 1) * B)) xs))"
      using bs(2) by (simp add: n2 add.commute)
    then have "concat (b # bs) = take (nat B + nat ((nb - i) * B)) (drop (nat ((i - 1) * B)) xs)"
      by (simp only: concat.simps b_def take_add)
    then have "concat (b # bs) = take (nat ((nb + 1 - i) * B)) (drop (nat ((i - 1) * B)) xs)"
      by (simp only: n1)
    moreover have "length (b # bs) = nat (nb + 1 - i)" using bs(3) True by simp
    moreover have "\<forall>c \<in> set (b # bs). length c = nat B" using bs(4) lenb by simp
    ultimately show ?thesis using res by blast
  qed
qed


lemma sdiv_smod_nonneg:
  "0 \<le> a \<Longrightarrow> 0 < b \<Longrightarrow> (a::int) sdiv b = a div b \<and> a smod b = a mod b"
  by (simp add: signed_divide_int_def signed_modulo_int_def sgn_if)

lemma makeBatches_full_more:
  "i \<le> numBatches \<Longrightarrow>
   makeBatches_full strSlice batchSize numBatches i batches =
     (case go_slice strSlice (if i = 1 then 0 else batchSize * (i - 1)) (i * batchSize) of
        Inl e \<Rightarrow> Inl e
      | Inr b \<Rightarrow> makeBatches_full strSlice batchSize numBatches (i + 1) (batches @ [b]))"
  by (subst makeBatches_full.simps) (simp add: Let_def)

lemma makeBatches_full_done:
  "numBatches < i \<Longrightarrow> makeBatches_full strSlice batchSize numBatches i batches = Inr batches"
  by (subst makeBatches_full.simps) simp

lemma makeBatches_positive:
  assumes "1 \<le> B"
  shows "\<exists>batches. makeBatchesStringPointer xs B = Inr batches
           \<and> concat batches = xs
           \<and> int (length batches) = (int (length xs) + B - 1) div B
           \<and> int (length batches) = \<lceil>real (length xs) / real_of_int B\<rceil>
           \<and> list_all (\<lambda>b. 1 \<le> length b \<and> int (length b) \<le> B) batches
           \<and> list_all (\<lambda>b. int (length b) = B) (butlast batches)"
proof -
  define N where "N = int (length xs)"
  define nb where "nb = N div B"
  define r where "r = N mod B"
  have B: "0 < B" using assms by simp
  have N0: "0 \<le> N" by (simp add: N_def)
  have sd: "N sdiv B = nb" "N smod B = r"
    using sdiv_smod_nonneg [OF N0 B] by (simp_all add: nb_def r_def)
  have nb0: "0 \<le> nb" using N0 B by (simp add: nb_def pos_imp_zdiv_nonneg_iff)
  have r0: "0 \<le> r" "r < B" using B by (simp_all add: r_def)
  have split: "N = nb * B + r" by (simp add: nb_def r_def)
  have le: "nb * B \<le> int (length xs)" using split r0 by (simp add: N_def)
  from makeBatches_full_inv [OF B _ _ le, of 1 "[]"] nb0
  obtain bs where bs: "makeBatches_full xs B nb 1 [] = Inr bs"
      "concat bs = take (nat (nb * B)) xs" "length bs = nat nb"
      "\<forall>b \<in> set bs. length b = nat B"
    by auto
  have full: "\<forall>b \<in> set bs. 1 \<le> length b \<and> int (length b) \<le> B \<and> int (length b) = B"
  proof
    fix b assume "b \<in> set bs"
    then have "length b = nat B" using bs(4) by blast
    then show "1 \<le> length b \<and> int (length b) \<le> B \<and> int (length b) = B"
      using B by simp
  qed
  have ceil1: "(N + B - 1) div B = (if 0 < r then nb + 1 else nb)"
  proof (cases "0 < r")
    case True
    have "N + B - 1 = (nb + 1) * B + (r - 1)" using split by (simp add: algebra_simps)
    moreover have "((nb + 1) * B + (r - 1)) div B = nb + 1"
      using True r0 B by (simp add: div_pos_pos_trivial)
    ultimately show ?thesis using True by (simp only: if_True)
  next
    case False
    then have "r = 0" using r0 by simp
    then have "N + B - 1 = nb * B + (B - 1)" using split by simp
    moreover have "(nb * B + (B - 1)) div B = nb"
      using B by (simp add: div_pos_pos_trivial)
    ultimately show ?thesis using False by (simp only: if_False)
  qed
  have ceil2: "\<lceil>real (length xs) / real_of_int B\<rceil> = (N + B - 1) div B"
  proof -
    have "\<lceil>real (length xs) / real_of_int B\<rceil> = \<lceil>real_of_int N / real_of_int B\<rceil>"
      by (simp add: N_def)
    also have "\<dots> = - (- N div B)" by (rule ceiling_divide_eq_div)
    also have "\<dots> = (N + B - 1) div B"
      using B by (smt (verit) div_minus_right zdiv_zminus1_eq_if ceil1 nb_def r_def
         mod_eq_0_iff_dvd r0(1))
    finally show ?thesis .
  qed
  show ?thesis
  proof (cases "0 < r")
    case True
    have sl: "go_slice xs (int (length xs) - r) (int (length xs)) = Inr (drop (nat (nb * B)) xs)"
      using split r0 nb0 B by (simp add: go_slice_def N_def)
    have res: "makeBatchesStringPointer xs B = Inr (bs @ [drop (nat (nb * B)) xs])"
      using B True bs(1) sl sd
      by (simp add: makeBatchesStringPointer_def Let_def N_def [symmetric])
    have lenlast: "int (length (drop (nat (nb * B)) xs)) = r"
    proof -
      have nbB: "0 \<le> nb * B" using nb0 B by simp
      then have "nat (nb * B) \<le> length xs" using le by linarith
      then have "int (length xs - nat (nb * B)) = int (length xs) - nb * B"
        using nbB by (simp add: of_nat_diff)
      then show ?thesis using split by (simp add: N_def)
    qed
    have "concat (bs @ [drop (nat (nb * B)) xs]) = xs" using bs(2) by simp
    moreover have "int (length (bs @ [drop (nat (nb * B)) xs])) = (N + B - 1) div B"
      using ceil1 True bs(3) nb0 by simp
    moreover have "list_all (\<lambda>b. 1 \<le> length b \<and> int (length b) \<le> B)
         (bs @ [drop (nat (nb * B)) xs])"
    proof -
      have "1 \<le> length (drop (nat (nb * B)) xs)" using lenlast True by linarith
      moreover have "int (length (drop (nat (nb * B)) xs)) \<le> B" using lenlast r0 by linarith
      ultimately show ?thesis using full by (simp add: list_all_iff)
    qed
    moreover have "list_all (\<lambda>b. int (length b) = B) (butlast (bs @ [drop (nat (nb * B)) xs]))"
      using full by (simp add: list_all_iff)
    ultimately show ?thesis using res ceil2 unfolding N_def by (metis (no_types, lifting))
  next
    case False
    then have r: "r = 0" using r0 by simp
    have res: "makeBatchesStringPointer xs B = Inr bs"
      using B r bs(1) sd
      by (simp add: makeBatchesStringPointer_def Let_def N_def [symmetric])
    have "nat (nb * B) = length xs" using split r by (simp add: N_def)
    then have "concat bs = xs" using bs(2) by simp
    moreover have "int (length bs) = (N + B - 1) div B"
      using ceil1 r bs(3) nb0 by simp
    moreover have "list_all (\<lambda>b. 1 \<le> length b \<and> int (length b) \<le> B) bs"
      using full by (simp add: list_all_iff)
    moreover have "list_all (\<lambda>b. int (length b) = B) (butlast bs)"
      using full by (auto simp: list_all_iff dest: in_set_butlastD)
    ultimately show ?thesis using res ceil2 unfolding N_def by (metis (no_types, lifting))
  qed
qed



lemma makeBatches_negative:
  assumes "B < 0"
  shows "makeBatchesStringPointer xs B =
     Inr (if 0 < int (length xs) smod B
          then [drop (nat (int (length xs) - int (length xs) smod B)) xs] else [])"
proof -
  define N where "N = int (length xs)"
  define r where "r = N smod B"
  have N0: "0 \<le> N" by (simp add: N_def)
  have r: "r = N mod \<bar>B\<bar>" using N0 by (simp add: r_def signed_modulo_int_def sgn_if)
  have r0: "0 \<le> r" using assms r by simp
  have rN: "r \<le> N" using N0 r by (simp add: zmod_le_nonneg_dividend)
  have nb: "N sdiv B < 1"
    using N0 assms by (simp add: signed_divide_int_def sgn_if div_int_pos_iff)
       (smt (verit) pos_imp_zdiv_nonneg_iff)
  have full: "makeBatches_full xs B (N sdiv B) 1 [] = Inr []"
    using nb by (rule makeBatches_full_done)
  have sl: "go_slice xs (N - r) N = Inr (drop (nat (N - r)) xs)"
    using r0 rN by (simp add: go_slice_def N_def)
  show ?thesis
    using assms full sl
    by (simp add: makeBatchesStringPointer_def Let_def N_def [symmetric] r_def [symmetric])
qed

text \<open>
  Claim C8. For a list of \<open>N\<close> identifiers and a batch size \<open>B \<ge> 1\<close>,
  \<open>makeBatchesStringPointer\<close> returns (without a panic) \<open>ceil(N/B)\<close> batches, every
  batch has between 1 and \<open>B\<close> elements, every batch but the last has exactly \<open>B\<close>,
  and the batches concatenated in order are the input list: nothing dropped, nothing
  duplicated.
\<close>

theorem makeBatchesStringPointer_partition:
  assumes "1 \<le> B"
  shows "\<exists>batches. makeBatchesStringPointer xs B = Inr batches
           \<and> concat batches = xs
           \<and> int (length batches) = (int (length xs) + B - 1) div B
           \<and> int (length batches) = \<lceil>real (length xs) / real_of_int B\<rceil>
           \<and> list_all (\<lambda>b. 1 \<le> length b \<and> int (length b) \<le> B) batches
           \<and> list_all (\<lambda>b. int (length b) = B) (butlast batches)"
  using assms by (rule makeBatches_positive)

theorem makeBatchesStringPointer_partition_witness:
  "(1::int) \<le> 2 \<and>
   makeBatchesStringPointer [''v1'', ''v2'', ''v3'', ''v4'', ''v5''] 2
     = Inr [[''v1'', ''v2''], [''v3'', ''v4''], [''v5'']]"
proof -
  have ev: "makeBatchesStringPointer [''v1'', ''v2'', ''v3'', ''v4'', ''v5''] 2
     = Inr [[''v1'', ''v2''], [''v3'', ''v4''], [''v5'']]"
    apply (simp add: makeBatchesStringPointer_def signed_divide_int_def signed_modulo_int_def)
    apply (subst makeBatches_full.simps, simp add: go_slice_def)+
    done
  have h: "(1::int) \<le> 2" by simp
  from makeBatchesStringPointer_partition [OF h, of "[''v1'', ''v2'', ''v3'', ''v4'', ''v5'']"] ev h
  show ?thesis by simp
qed



subsection \<open>Aggregation\<close>


lemma addBar_scan_fst: "fst (addBar_scan vol n k bars p) = map (addMember vol n) bars"
  by (induction bars arbitrary: k p) (simp_all add: addMember_def case_prod_beta)

lemma addBar_scan_snd_none:
  "vol \<notin> BarVolumeId ` set bars \<Longrightarrow> snd (addBar_scan vol n k bars p) = p"
  by (induction bars arbitrary: k p) (auto simp: case_prod_beta)

lemma addBar_scan_snd_some:
  "distinct (map BarVolumeId bars) \<Longrightarrow> j < length bars \<Longrightarrow> BarVolumeId (bars ! j) = vol \<Longrightarrow>
   snd (addBar_scan vol n k bars p) = Some (k + j)"
proof (induction bars arbitrary: k p j)
  case Nil
  then show ?case by simp
next
  case (Cons b bars)
  show ?case
  proof (cases j)
    case 0
    with Cons.prems have b: "BarVolumeId b = vol" and "vol \<notin> BarVolumeId ` set bars"
      by auto
    then show ?thesis using 0 by (simp add: case_prod_beta addBar_scan_snd_none)
  next
    case (Suc j')
    with Cons.prems have j': "j' < length bars" "BarVolumeId (bars ! j') = vol"
      and d: "distinct (map BarVolumeId bars)" by auto
    from Cons.prems Suc j' have "BarVolumeId b \<noteq> vol"
      by (metis distinct.simps(2) image_eqI list.simps(9) nth_mem set_map)
    then show ?thesis using Cons.IH [OF d j'] Suc by (simp add: case_prod_beta)
  qed
qed

lemma addMember_VolumeId [simp]: "BarVolumeId (addMember vol n b) = BarVolumeId b"
  by (simp add: addMember_def)

lemma addMember_HasVol [simp]: "BarHasVol (addMember vol n b) = BarHasVol b"
  by (simp add: addMember_def)

text \<open>What \<open>addBar\<close> does, by cases on whether a bar with the volume id exists.\<close>

lemma addBar_found:
  assumes "distinct (map BarVolumeId (Bars e))" "j < length (Bars e)"
    "BarVolumeId (Bars e ! j) = VolumeId (Snap (Nuggets e ! n))"
  shows "addBar e n = e\<lparr>Bars := map (addMember (VolumeId (Snap (Nuggets e ! n))) n) (Bars e),
                        Nuggets := (Nuggets e)[n := (Nuggets e ! n)\<lparr>parentBar := Some j\<rparr>]\<rparr>"
proof -
  let ?vol = "VolumeId (Snap (Nuggets e ! n))"
  have "addBar_scan ?vol n 0 (Bars e) None = (map (addMember ?vol n) (Bars e), Some j)"
    using addBar_scan_fst [of ?vol n 0 "Bars e" None]
      addBar_scan_snd_some [OF assms, of n 0 None]
    by (simp add: prod_eq_iff)
  then show ?thesis by (simp add: addBar_def Let_def)
qed

lemma addBar_new:
  assumes "VolumeId (Snap (Nuggets e ! n)) \<notin> BarVolumeId ` set (Bars e)"
  shows "addBar e n =
     e\<lparr>Bars := Bars e @ [\<lparr>BarVolumeId = VolumeId (Snap (Nuggets e ! n)), BarNuggets = [n],
                          BarHasVol = HasVol (Nuggets e ! n)\<rparr>],
       Nuggets := (Nuggets e)[n := (Nuggets e ! n)\<lparr>parentBar := Some (length (Bars e))\<rparr>]\<rparr>"
proof -
  let ?vol = "VolumeId (Snap (Nuggets e ! n))"
  have "snd (addBar_scan ?vol n 0 (Bars e) None) = None"
    using assms by (rule addBar_scan_snd_none)
  then obtain bs where "addBar_scan ?vol n 0 (Bars e) None = (bs, None)"
    by (metis prod.collapse)
  then show ?thesis by (simp add: addBar_def Let_def)
qed


lemma aggInv_fields:
  assumes "aggInv ns m e" "i < length ns"
  shows "Snap (Nuggets e ! i) = Snap (ns ! i)" "HasVol (Nuggets e ! i) = HasVol (ns ! i)"
    "ASGs (Nuggets e ! i) = ASGs (ns ! i)" "AMISharedWith (Nuggets e ! i) = AMISharedWith (ns ! i)"
    "LCs (Nuggets e ! i) = LCs (ns ! i)" "LTs (Nuggets e ! i) = LTs (ns ! i)"
    "AMIIDs (Nuggets e ! i) = AMIIDs (ns ! i)"
proof -
  from assms have eq: "Nuggets e ! i = (ns ! i)\<lparr>parentBar := parentBar (Nuggets e ! i)\<rparr>"
    by (simp add: aggInv_def)
  show "Snap (Nuggets e ! i) = Snap (ns ! i)" by (subst eq) simp
  show "HasVol (Nuggets e ! i) = HasVol (ns ! i)" by (subst eq) simp
  show "ASGs (Nuggets e ! i) = ASGs (ns ! i)" by (subst eq) simp
  show "AMISharedWith (Nuggets e ! i) = AMISharedWith (ns ! i)" by (subst eq) simp
  show "LCs (Nuggets e ! i) = LCs (ns ! i)" by (subst eq) simp
  show "LTs (Nuggets e ! i) = LTs (ns ! i)" by (subst eq) simp
  show "AMIIDs (Nuggets e ! i) = AMIIDs (ns ! i)" by (subst eq) simp
qed

lemma aggInv_step:
  assumes inv: "aggInv ns m e" and m: "m < length ns"
  shows "aggInv ns (Suc m) (addBar e m)"
proof -
  let ?vol = "VolumeId (Snap (ns ! m))"
  have vol: "VolumeId (Snap (Nuggets e ! m)) = ?vol"
    using aggInv_fields(1) [OF inv m] by simp
  have len: "length (Nuggets e) = length ns" using inv by (simp add: aggInv_def)
  have recs: "\<And>i. i < length ns \<Longrightarrow>
      Nuggets e ! i = (ns ! i)\<lparr>parentBar := parentBar (Nuggets e ! i)\<rparr>"
    using inv by (simp add: aggInv_def)
  have dist: "distinct (map BarVolumeId (Bars e))" using inv by (simp add: aggInv_def)
  have bars: "\<And>b. b \<in> set (Bars e) \<Longrightarrow>
         BarNuggets b = filter (\<lambda>i. VolumeId (Snap (ns ! i)) = BarVolumeId b) [0..<m]
       \<and> BarNuggets b \<noteq> [] \<and> BarHasVol b = HasVol (ns ! hd (BarNuggets b))"
    using inv unfolding aggInv_def by blast
  have par: "\<And>i. i < m \<Longrightarrow> \<exists>k < length (Bars e).
         parentBar (Nuggets e ! i) = Some k
       \<and> BarVolumeId (Bars e ! k) = VolumeId (Snap (ns ! i))"
    using inv unfolding aggInv_def by blast
  have recm: "(Nuggets e ! m)\<lparr>parentBar := Some k\<rparr> = (ns ! m)\<lparr>parentBar := Some k\<rparr>" for k
    by (subst recs [OF m]) simp
  have c2gen: "\<forall>i < length ns. (Nuggets e)[m := (ns ! m)\<lparr>parentBar := Some k\<rparr>] ! i
      = (ns ! i)\<lparr>parentBar :=
           parentBar ((Nuggets e)[m := (ns ! m)\<lparr>parentBar := Some k\<rparr>] ! i)\<rparr>" for k
  proof (intro allI impI)
    fix i assume i: "i < length ns"
    show "(Nuggets e)[m := (ns ! m)\<lparr>parentBar := Some k\<rparr>] ! i
      = (ns ! i)\<lparr>parentBar :=
           parentBar ((Nuggets e)[m := (ns ! m)\<lparr>parentBar := Some k\<rparr>] ! i)\<rparr>"
    proof (cases "i = m")
      case True
      then show ?thesis using len m by simp
    next
      case False
      then show ?thesis by (simp add: recs [OF i, symmetric])
    qed
  qed
  show ?thesis
  proof (cases "?vol \<in> BarVolumeId ` set (Bars e)")
    case True
    then obtain j where j: "j < length (Bars e)" "BarVolumeId (Bars e ! j) = ?vol"
      by (metis imageE in_set_conv_nth)
    have e': "addBar e m = e\<lparr>Bars := map (addMember ?vol m) (Bars e),
                        Nuggets := (Nuggets e)[m := (ns ! m)\<lparr>parentBar := Some j\<rparr>]\<rparr>"
      using addBar_found [OF dist j(1), of m] j(2) vol recm by simp
    have c1: "length (Nuggets (addBar e m)) = length ns" by (simp add: e' len)
    have c2: "\<forall>i < length ns. Nuggets (addBar e m) ! i
           = (ns ! i)\<lparr>parentBar := parentBar (Nuggets (addBar e m) ! i)\<rparr>"
      using c2gen by (simp add: e')
    have c3: "distinct (map BarVolumeId (Bars (addBar e m)))"
      using dist by (simp add: e' o_def)
    have c4: "\<forall>b \<in> set (Bars (addBar e m)).
         BarNuggets b = filter (\<lambda>i. VolumeId (Snap (ns ! i)) = BarVolumeId b) [0..<Suc m]
       \<and> BarNuggets b \<noteq> [] \<and> BarHasVol b = HasVol (ns ! hd (BarNuggets b))"
    proof
      fix b' assume "b' \<in> set (Bars (addBar e m))"
      then obtain b where b: "b \<in> set (Bars e)" "b' = addMember ?vol m b"
        by (auto simp: e')
      from bars [OF b(1)] show "BarNuggets b' = filter (\<lambda>i. VolumeId (Snap (ns ! i)) = BarVolumeId b') [0..<Suc m]
       \<and> BarNuggets b' \<noteq> [] \<and> BarHasVol b' = HasVol (ns ! hd (BarNuggets b'))"
        by (auto simp: b(2) addMember_def)
    qed
    have c5: "\<forall>i < Suc m. \<exists>k < length (Bars (addBar e m)).
         parentBar (Nuggets (addBar e m) ! i) = Some k
       \<and> BarVolumeId (Bars (addBar e m) ! k) = VolumeId (Snap (ns ! i))"
    proof (intro allI impI)
      fix i assume i: "i < Suc m"
      show "\<exists>k < length (Bars (addBar e m)).
         parentBar (Nuggets (addBar e m) ! i) = Some k
       \<and> BarVolumeId (Bars (addBar e m) ! k) = VolumeId (Snap (ns ! i))"
      proof (cases "i = m")
        case True
        then show ?thesis using j m len by (intro exI [of _ j]) (simp add: e')
      next
        case False
        with i have "i < m" by simp
        from par [OF this] obtain k where "k < length (Bars e)"
          "parentBar (Nuggets e ! i) = Some k"
          "BarVolumeId (Bars e ! k) = VolumeId (Snap (ns ! i))" by blast
        then show ?thesis using False by (intro exI [of _ k]) (simp add: e')
      qed
    qed
    show ?thesis unfolding aggInv_def using c1 c2 c3 c4 c5 by blast
  next
    case False
    let ?new = "\<lparr>BarVolumeId = ?vol, BarNuggets = [m], BarHasVol = HasVol (ns ! m)\<rparr>"
    have hv: "HasVol (Nuggets e ! m) = HasVol (ns ! m)"
      using aggInv_fields(2) [OF inv m] .
    have e': "addBar e m = e\<lparr>Bars := Bars e @ [?new],
         Nuggets := (Nuggets e)[m := (ns ! m)\<lparr>parentBar := Some (length (Bars e))\<rparr>]\<rparr>"
      using addBar_new [of e m] False vol hv recm by simp
    have none: "filter (\<lambda>i. VolumeId (Snap (ns ! i)) = ?vol) [0..<m] = []"
    proof -
      have "\<And>i. i < m \<Longrightarrow> VolumeId (Snap (ns ! i)) \<noteq> ?vol"
      proof
        fix i assume "i < m" "VolumeId (Snap (ns ! i)) = ?vol"
        with par [of i] obtain k where "k < length (Bars e)" "BarVolumeId (Bars e ! k) = ?vol"
          by auto
        then have "?vol \<in> BarVolumeId ` set (Bars e)" by (metis image_eqI nth_mem)
        with False show False by contradiction
      qed
      then show ?thesis by (simp add: filter_empty_conv)
    qed
    have c1: "length (Nuggets (addBar e m)) = length ns" by (simp add: e' len)
    have c2: "\<forall>i < length ns. Nuggets (addBar e m) ! i
           = (ns ! i)\<lparr>parentBar := parentBar (Nuggets (addBar e m) ! i)\<rparr>"
      using c2gen by (simp add: e')
    have c3: "distinct (map BarVolumeId (Bars (addBar e m)))"
      using dist False by (simp add: e')
    have c4: "\<forall>b \<in> set (Bars (addBar e m)).
         BarNuggets b = filter (\<lambda>i. VolumeId (Snap (ns ! i)) = BarVolumeId b) [0..<Suc m]
       \<and> BarNuggets b \<noteq> [] \<and> BarHasVol b = HasVol (ns ! hd (BarNuggets b))"
    proof
      fix b assume "b \<in> set (Bars (addBar e m))"
      then consider "b \<in> set (Bars e)" | "b = ?new" by (auto simp: e')
      then show "BarNuggets b = filter (\<lambda>i. VolumeId (Snap (ns ! i)) = BarVolumeId b) [0..<Suc m]
       \<and> BarNuggets b \<noteq> [] \<and> BarHasVol b = HasVol (ns ! hd (BarNuggets b))"
      proof cases
        case 1
        then have "BarVolumeId b \<noteq> ?vol" using False by (metis image_eqI)
        with bars [OF 1] show ?thesis by auto
      next
        case 2
        then show ?thesis using none by simp
      qed
    qed
    have c5: "\<forall>i < Suc m. \<exists>k < length (Bars (addBar e m)).
         parentBar (Nuggets (addBar e m) ! i) = Some k
       \<and> BarVolumeId (Bars (addBar e m) ! k) = VolumeId (Snap (ns ! i))"
    proof (intro allI impI)
      fix i assume i: "i < Suc m"
      show "\<exists>k < length (Bars (addBar e m)).
         parentBar (Nuggets (addBar e m) ! i) = Some k
       \<and> BarVolumeId (Bars (addBar e m) ! k) = VolumeId (Snap (ns ! i))"
      proof (cases "i = m")
        case True
        then show ?thesis using m len by (intro exI [of _ "length (Bars e)"]) (simp add: e')
      next
        case False
        with i have "i < m" by simp
        from par [OF this] obtain k where "k < length (Bars e)"
          "parentBar (Nuggets e ! i) = Some k"
          "BarVolumeId (Bars e ! k) = VolumeId (Snap (ns ! i))" by blast
        then show ?thesis using False by (intro exI [of _ k]) (simp add: e' nth_append)
      qed
    qed
    show ?thesis unfolding aggInv_def using c1 c2 c3 c4 c5 by blast
  qed
qed


lemma aggInv_init: "Bars e0 = [] \<Longrightarrow> aggInv (Nuggets e0) 0 e0"
  by (simp add: aggInv_def)

lemma aggInv_fold:
  assumes "Bars e0 = []" "m \<le> length (Nuggets e0)"
  shows "aggInv (Nuggets e0) m (fold (\<lambda>n e. addBar e n) [0..<m] e0)"
  using assms(2)
proof (induction m)
  case 0
  then show ?case using aggInv_init [OF assms(1)] by simp
next
  case (Suc m)
  then have "aggInv (Nuggets e0) m (fold (\<lambda>n e. addBar e n) [0..<m] e0)" by simp
  from aggInv_step [OF this] Suc.prems show ?case by simp
qed

lemma addBars_aggInv:
  "Bars e0 = [] \<Longrightarrow> aggInv (Nuggets e0) (length (Nuggets e0)) (addBars e0)"
  unfolding addBars_def by (rule aggInv_fold) simp_all

lemma addBar_frame:
  "addBar e n = e\<lparr>Bars := Bars (addBar e n), Nuggets := Nuggets (addBar e n)\<rparr>"
  by (simp add: addBar_def Let_def split: prod.splits option.splits)

lemma fold_addBar_frame_ex:
  "\<exists>B N. fold (\<lambda>n e. addBar e n) is e = e\<lparr>Bars := B, Nuggets := N\<rparr>"
proof (induction "is" arbitrary: e)
  case Nil
  have "e = e\<lparr>Bars := Bars e, Nuggets := Nuggets e\<rparr>" by simp
  then show ?case by (metis fold_simps(1))
next
  case (Cons i "is")
  from Cons.IH [of "addBar e i"] obtain B N where
    "fold (\<lambda>n e. addBar e n) is (addBar e i) = (addBar e i)\<lparr>Bars := B, Nuggets := N\<rparr>"
    by blast
  moreover have "(addBar e i)\<lparr>Bars := B, Nuggets := N\<rparr> = e\<lparr>Bars := B, Nuggets := N\<rparr>"
    by (subst addBar_frame) simp
  ultimately show ?case by (metis fold_simps(2))
qed

lemma fold_addBar_frame:
  "fold (\<lambda>n e. addBar e n) is e
     = e\<lparr>Bars := Bars (fold (\<lambda>n e. addBar e n) is e),
          Nuggets := Nuggets (fold (\<lambda>n e. addBar e n) is e)\<rparr>"
proof -
  from fold_addBar_frame_ex [of "is" e] obtain B N where
    eq: "fold (\<lambda>n e. addBar e n) is e = e\<lparr>Bars := B, Nuggets := N\<rparr>" by blast
  show ?thesis by (simp add: eq)
qed

lemma addBars_frame:
  "addBars e = e\<lparr>Bars := Bars (addBars e), Nuggets := Nuggets (addBars e)\<rparr>"
  unfolding addBars_def by (rule fold_addBar_frame)

lemma mset_filter_disjoint:
  "(\<And>x. x \<in> set xs \<Longrightarrow> \<not> (P x \<and> Q x)) \<Longrightarrow>
   mset (filter P xs) + mset (filter Q xs) = mset (filter (\<lambda>x. P x \<or> Q x) xs)"
  by (induction xs) auto

lemma mset_concat_filter_keys:
  "distinct (map key bars) \<Longrightarrow>
   mset (concat (map (\<lambda>b. filter (\<lambda>i. f i = key b) xs) bars))
     = mset (filter (\<lambda>i. f i \<in> key ` set bars) xs)"
proof (induction bars)
  case Nil
  then show ?case by simp
next
  case (Cons b bars)
  then have IH: "mset (concat (map (\<lambda>b. filter (\<lambda>i. f i = key b) xs) bars))
     = mset (filter (\<lambda>i. f i \<in> key ` set bars) xs)" by simp
  from Cons.prems have nb: "key b \<notin> key ` set bars" by simp
  have "mset (filter (\<lambda>i. f i = key b) xs) + mset (filter (\<lambda>i. f i \<in> key ` set bars) xs)
      = mset (filter (\<lambda>i. f i = key b \<or> f i \<in> key ` set bars) xs)"
    by (rule mset_filter_disjoint) (use nb in auto)
  then show ?case by (simp add: IH)
qed

lemma aggInv_members:
  assumes inv: "aggInv ns m e" and k: "k < length (Bars e)"
  shows "i \<in> set (BarNuggets (Bars e ! k)) \<longleftrightarrow>
           i < m \<and> VolumeId (Snap (ns ! i)) = BarVolumeId (Bars e ! k)"
proof -
  have "Bars e ! k \<in> set (Bars e)" using k by simp
  with inv have "BarNuggets (Bars e ! k)
      = filter (\<lambda>i. VolumeId (Snap (ns ! i)) = BarVolumeId (Bars e ! k)) [0..<m]"
    unfolding aggInv_def by blast
  then show ?thesis by auto
qed

lemma aggInv_mset:
  assumes inv: "aggInv ns m e"
  shows "mset (concat (map BarNuggets (Bars e))) = mset [0..<m]"
proof -
  have dist: "distinct (map BarVolumeId (Bars e))" using inv by (simp add: aggInv_def)
  have "map BarNuggets (Bars e)
      = map (\<lambda>b. filter (\<lambda>i. VolumeId (Snap (ns ! i)) = BarVolumeId b) [0..<m]) (Bars e)"
    using inv unfolding aggInv_def by (intro map_cong refl) blast
  then have "mset (concat (map BarNuggets (Bars e)))
      = mset (filter (\<lambda>i. VolumeId (Snap (ns ! i)) \<in> BarVolumeId ` set (Bars e)) [0..<m])"
    using mset_concat_filter_keys [OF dist, of "\<lambda>i. VolumeId (Snap (ns ! i))" "[0..<m]"]
    by (simp only:)
  moreover have "filter (\<lambda>i. VolumeId (Snap (ns ! i)) \<in> BarVolumeId ` set (Bars e)) [0..<m]
      = [0..<m]"
  proof -
    have "\<And>i. i < m \<Longrightarrow> VolumeId (Snap (ns ! i)) \<in> BarVolumeId ` set (Bars e)"
    proof -
      fix i assume "i < m"
      with inv obtain k where "k < length (Bars e)"
        "BarVolumeId (Bars e ! k) = VolumeId (Snap (ns ! i))"
        unfolding aggInv_def by blast
      then show "VolumeId (Snap (ns ! i)) \<in> BarVolumeId ` set (Bars e)"
        by (metis image_eqI nth_mem)
    qed
    then show ?thesis by (simp add: filter_id_conv)
  qed
  ultimately show ?thesis by (simp only:)
qed

text \<open>
  Claim C6. After aggregation of any collection of records (starting without bars), the
  records are the input ones, unchanged but for the pointer to their group; no two groups
  have the same volume id; the member lists of all groups together hold every input
  record exactly once (as positions, and as records); every record is a member of exactly
  one group, and that group is the one its \<open>parentBar\<close> points to and has the volume id
  of the record.
\<close>

theorem addBars_partition:
  assumes "Bars e0 = []"
  shows "length (Nuggets (addBars e0)) = length (Nuggets e0)
    \<and> (\<forall>i < length (Nuggets e0).
          Nuggets (addBars e0) ! i
            = (Nuggets e0 ! i)\<lparr>parentBar := parentBar (Nuggets (addBars e0) ! i)\<rparr>)
    \<and> distinct (map BarVolumeId (Bars (addBars e0)))
    \<and> mset (concat (map BarNuggets (Bars (addBars e0)))) = mset [0..<length (Nuggets e0)]
    \<and> mset (map (nth (Nuggets (addBars e0))) (concat (map BarNuggets (Bars (addBars e0)))))
         = mset (Nuggets (addBars e0))
    \<and> (\<forall>i < length (Nuggets e0).
          \<exists>!k. k < length (Bars (addBars e0)) \<and> i \<in> set (BarNuggets (Bars (addBars e0) ! k)))
    \<and> (\<forall>i < length (Nuggets e0).
          \<exists>k < length (Bars (addBars e0)).
             parentBar (Nuggets (addBars e0) ! i) = Some k
           \<and> i \<in> set (BarNuggets (Bars (addBars e0) ! k))
           \<and> BarVolumeId (Bars (addBars e0) ! k) = VolumeId (Snap (Nuggets e0 ! i)))"
proof -
  let ?e = "addBars e0" and ?ns = "Nuggets e0"
  have inv: "aggInv ?ns (length ?ns) ?e" using assms by (rule addBars_aggInv)
  have len: "length (Nuggets ?e) = length ?ns" using inv by (simp add: aggInv_def)
  have recs: "\<forall>i < length ?ns.
      Nuggets ?e ! i = (?ns ! i)\<lparr>parentBar := parentBar (Nuggets ?e ! i)\<rparr>"
    using inv unfolding aggInv_def by blast
  have dist: "distinct (map BarVolumeId (Bars ?e))" using inv by (simp add: aggInv_def)
  have ms: "mset (concat (map BarNuggets (Bars ?e))) = mset [0..<length ?ns]"
    using inv by (rule aggInv_mset)
  have ms2: "mset (map (nth (Nuggets ?e)) (concat (map BarNuggets (Bars ?e))))
         = mset (Nuggets ?e)"
  proof -
    have "mset (map (nth (Nuggets ?e)) (concat (map BarNuggets (Bars ?e))))
        = image_mset (nth (Nuggets ?e)) (mset [0..<length (Nuggets ?e)])"
      using ms len by (simp only: mset_map [symmetric]) (simp add: mset_map)
    also have "\<dots> = mset (map (nth (Nuggets ?e)) [0..<length (Nuggets ?e)])"
      by (simp only: mset_map)
    also have "\<dots> = mset (Nuggets ?e)" by (simp only: map_nth)
    finally show ?thesis .
  qed
  have par: "\<forall>i < length ?ns. \<exists>k < length (Bars ?e).
             parentBar (Nuggets ?e ! i) = Some k
           \<and> i \<in> set (BarNuggets (Bars ?e ! k))
           \<and> BarVolumeId (Bars ?e ! k) = VolumeId (Snap (?ns ! i))"
  proof (intro allI impI)
    fix i assume i: "i < length ?ns"
    with inv obtain k where k: "k < length (Bars ?e)" "parentBar (Nuggets ?e ! i) = Some k"
      "BarVolumeId (Bars ?e ! k) = VolumeId (Snap (?ns ! i))"
      unfolding aggInv_def by blast
    moreover have "i \<in> set (BarNuggets (Bars ?e ! k))"
      using aggInv_members [OF inv k(1), of i] i k(3) by simp
    ultimately show "\<exists>k < length (Bars ?e).
             parentBar (Nuggets ?e ! i) = Some k
           \<and> i \<in> set (BarNuggets (Bars ?e ! k))
           \<and> BarVolumeId (Bars ?e ! k) = VolumeId (Snap (?ns ! i))" by blast
  qed
  have uniq: "\<forall>i < length ?ns.
          \<exists>!k. k < length (Bars ?e) \<and> i \<in> set (BarNuggets (Bars ?e ! k))"
  proof (intro allI impI)
    fix i assume i: "i < length ?ns"
    with par obtain k where k: "k < length (Bars ?e)" "i \<in> set (BarNuggets (Bars ?e ! k))"
      by blast
    show "\<exists>!k. k < length (Bars ?e) \<and> i \<in> set (BarNuggets (Bars ?e ! k))"
    proof (rule ex1I [of _ k])
      show "k < length (Bars ?e) \<and> i \<in> set (BarNuggets (Bars ?e ! k))" using k by simp
    next
      fix k' assume k': "k' < length (Bars ?e) \<and> i \<in> set (BarNuggets (Bars ?e ! k'))"
      then have "BarVolumeId (Bars ?e ! k') = BarVolumeId (Bars ?e ! k)"
        using aggInv_members [OF inv, of k' i] aggInv_members [OF inv k(1), of i] k(2)
        by simp
      then have "map BarVolumeId (Bars ?e) ! k' = map BarVolumeId (Bars ?e) ! k"
        using k' k(1) by simp
      then show "k' = k" using nth_eq_iff_index_eq [OF dist, of k' k] k' k(1) by simp
    qed
  qed
  show ?thesis using len recs dist ms ms2 uniq par by blast
qed


subsection \<open>Plan building\<close>


lemma planNuggets_eq:
  "planNuggets nugs ns acc =
     acc\<lparr>accLts := accLts acc @ concat (map (\<lambda>n. LTs (nugs ! n)) (filter (\<lambda>n. deletableNugget (nugs ! n)) ns)),
         accLcs := accLcs acc @ concat (map (\<lambda>n. LCs (nugs ! n)) (filter (\<lambda>n. deletableNugget (nugs ! n)) ns)),
         accAmi := accAmi acc @ concat (map (\<lambda>n. AMIIDs (nugs ! n)) (filter (\<lambda>n. deletableNugget (nugs ! n)) ns)),
         accSnap := accSnap acc @ map (\<lambda>n. SnapshotId (Snap (nugs ! n))) (filter (\<lambda>n. deletableNugget (nugs ! n)) ns),
         barsToDelete := barsToDelete acc @ map (\<lambda>n. parentBar (nugs ! n)) (filter (\<lambda>n. deletableNugget (nugs ! n)) ns),
         countAsgShare := countAsgShare acc + length (filter (\<lambda>n. \<not> deletableNugget (nugs ! n)) ns)\<rparr>"
  by (induction ns arbitrary: acc) (simp_all add: deletableNugget_def Let_def)

lemma planBars_eq:
  "planBars nugs bars acc =
     acc\<lparr>accLts := accLts acc @ concat (map (\<lambda>n. LTs (nugs ! n)) (deletableMembers nugs bars)),
         accLcs := accLcs acc @ concat (map (\<lambda>n. LCs (nugs ! n)) (deletableMembers nugs bars)),
         accAmi := accAmi acc @ concat (map (\<lambda>n. AMIIDs (nugs ! n)) (deletableMembers nugs bars)),
         accSnap := accSnap acc @ map (\<lambda>n. SnapshotId (Snap (nugs ! n))) (deletableMembers nugs bars),
         barsToDelete := barsToDelete acc @ map (\<lambda>n. parentBar (nugs ! n)) (deletableMembers nugs bars),
         countAsgShare := countAsgShare acc
            + length (filter (\<lambda>n. \<not> deletableNugget (nugs ! n))
                (concat (map BarNuggets (filter (\<lambda>bar. \<not> BarHasVol bar) bars)))),
         countHasVol := countHasVol acc + length (filter BarHasVol bars)\<rparr>"
proof (induction bars arbitrary: acc)
  case Nil
  then show ?case by (simp add: deletableMembers_def)
next
  case (Cons b bars)
  show ?case
  proof (cases "BarHasVol b")
    case True
    then show ?thesis by (simp add: Cons.IH deletableMembers_def)
  next
    case False
    then show ?thesis by (simp add: Cons.IH planNuggets_eq deletableMembers_def)
  qed
qed


lemma aggInv_group:
  assumes inv: "aggInv ns (length ns) e" and i: "i < length ns"
  obtains k where "k < length (Bars e)" "parentBar (Nuggets e ! i) = Some k"
    "i \<in> set (BarNuggets (Bars e ! k))"
    "\<And>b. b \<in> set (Bars e) \<Longrightarrow> i \<in> set (BarNuggets b) \<Longrightarrow> b = Bars e ! k"
proof -
  from inv i obtain k where k: "k < length (Bars e)" "parentBar (Nuggets e ! i) = Some k"
      "BarVolumeId (Bars e ! k) = VolumeId (Snap (ns ! i))"
    unfolding aggInv_def by blast
  have mem: "i \<in> set (BarNuggets (Bars e ! k))"
    using aggInv_members [OF inv k(1), of i] i k(3) by simp
  have dist: "distinct (map BarVolumeId (Bars e))" using inv by (simp add: aggInv_def)
  have uniq: "b = Bars e ! k" if b: "b \<in> set (Bars e)" "i \<in> set (BarNuggets b)" for b
  proof -
    from b(1) obtain k' where k': "k' < length (Bars e)" "b = Bars e ! k'"
      by (metis in_set_conv_nth)
    then have "BarVolumeId (Bars e ! k') = BarVolumeId (Bars e ! k)"
      using aggInv_members [OF inv k'(1), of i] b(2) k(3) by simp
    then have "map BarVolumeId (Bars e) ! k' = map BarVolumeId (Bars e) ! k"
      using k'(1) k(1) by simp
    then have "k' = k" using nth_eq_iff_index_eq [OF dist, of k' k] k'(1) k(1) by simp
    then show ?thesis using k'(2) by simp
  qed
  show ?thesis using that [OF k(1) k(2) mem uniq] .
qed

lemma deletableMembers_set:
  assumes inv: "aggInv ns (length ns) e"
  shows "set (deletableMembers (Nuggets e) (Bars e)) = {i. i < length ns \<and> deletableRecord e i}"
proof (rule set_eqI)
  fix i
  show "i \<in> set (deletableMembers (Nuggets e) (Bars e))
      \<longleftrightarrow> i \<in> {i. i < length ns \<and> deletableRecord e i}"
  proof
    assume "i \<in> set (deletableMembers (Nuggets e) (Bars e))"
    then obtain b where b: "b \<in> set (Bars e)" "\<not> BarHasVol b" "i \<in> set (BarNuggets b)"
      and del: "deletableNugget (Nuggets e ! i)"
      by (auto simp: deletableMembers_def)
    from b(1) obtain k' where k': "k' < length (Bars e)" "b = Bars e ! k'"
      by (metis in_set_conv_nth)
    have i: "i < length ns" using aggInv_members [OF inv k'(1), of i] b(3) k'(2) by simp
    from aggInv_group [OF inv i] obtain k where k: "parentBar (Nuggets e ! i) = Some k"
      "\<And>b. b \<in> set (Bars e) \<Longrightarrow> i \<in> set (BarNuggets b) \<Longrightarrow> b = Bars e ! k" by blast
    have "b = Bars e ! k" using k(2) b by blast
    then have "deletableRecord e i" using k(1) b(2) del
      by (simp add: deletableRecord_def deletableNugget_def)
    with i show "i \<in> {i. i < length ns \<and> deletableRecord e i}" by simp
  next
    assume "i \<in> {i. i < length ns \<and> deletableRecord e i}"
    then have i: "i < length ns" and d: "deletableRecord e i" by simp_all
    from aggInv_group [OF inv i] obtain k where k: "k < length (Bars e)"
      "parentBar (Nuggets e ! i) = Some k" "i \<in> set (BarNuggets (Bars e ! k))" by blast
    from d k(2) have "\<not> BarHasVol (Bars e ! k)" "deletableNugget (Nuggets e ! i)"
      by (simp_all add: deletableRecord_def deletableNugget_def)
    moreover have "Bars e ! k \<in> set (Bars e)" using k(1) by simp
    ultimately show "i \<in> set (deletableMembers (Nuggets e) (Bars e))"
      using k(3) by (auto simp: deletableMembers_def)
  qed
qed

lemma totalGbs_loop_ok:
  "(\<And>p. p \<in> set ps \<Longrightarrow> \<exists>k. p = Some k \<and> BarNuggets (bars ! k) \<noteq> []) \<Longrightarrow>
   \<exists>t'. totalGbs_loop bars nugs ps t = Inr t'"
proof (induction ps arbitrary: t)
  case Nil
  then show ?case by simp
next
  case (Cons p ps)
  from Cons.prems [of p] obtain k where k: "p = Some k" "BarNuggets (bars ! k) \<noteq> []" by auto
  then obtain n ns where n: "BarNuggets (bars ! k) = n # ns" by (cases "BarNuggets (bars ! k)") auto
  have rest: "\<And>t. \<exists>t'. totalGbs_loop bars nugs ps t = Inr t'"
    using Cons.IH Cons.prems by simp
  show ?case using k(1) n rest by simp
qed

lemma aggInv_totalGbs_ok:
  assumes inv: "aggInv ns (length ns) e"
  shows "\<exists>gbs. totalGbs e = Inr gbs"
proof -
  have bd: "barsToDelete (planOf e)
      = map (\<lambda>n. parentBar (Nuggets e ! n)) (deletableMembers (Nuggets e) (Bars e))"
    by (simp add: planOf_def planBars_eq)
  have "\<exists>k. p = Some k \<and> BarNuggets (Bars e ! k) \<noteq> []"
    if "p \<in> set (barsToDelete (planOf e))" for p
  proof -
    from that obtain i where i: "i \<in> set (deletableMembers (Nuggets e) (Bars e))"
      "p = parentBar (Nuggets e ! i)" by (auto simp: bd)
    then have "i < length ns" using deletableMembers_set [OF inv] by auto
    from aggInv_group [OF inv this] obtain k where "k < length (Bars e)"
      "parentBar (Nuggets e ! i) = Some k" "i \<in> set (BarNuggets (Bars e ! k))" by blast
    then show ?thesis using i(2) by auto
  qed
  then show ?thesis unfolding totalGbs_def by (rule totalGbs_loop_ok)
qed


lemma setRecommendations_eq:
  assumes "totalGbs e = Inr gbs"
  shows "\<exists>e2. setRecommendations e = Inr e2
     \<and> Bars e2 = Bars e \<and> Nuggets e2 = Nuggets e
     \<and> LtsToDelete e2 = dedupeString (accLts (planOf e))
     \<and> LcsToDelete e2 = dedupeString (accLcs (planOf e))
     \<and> AmiToDelete e2 = dedupeString (accAmi (planOf e))
     \<and> SnapToDelete e2 = dedupeString (accSnap (planOf e))
     \<and> recommendations e2 \<noteq> []"
  using assms by (simp add: setRecommendations_def Let_def)

lemma dedupeString_set: "set (dedupeString xs) = set xs"
  by (simp add: dedupeString_def dedupeString_loop_set)

lemma dedupeString_distinct: "distinct (dedupeString xs)"
  by (simp add: dedupeString_def dedupeString_loop_distinct)

lemma plan_of_aggregated:
  assumes inv: "aggInv ns (length ns) e"
    and empty: "LtsToDelete e = []" "LcsToDelete e = []" "AmiToDelete e = []" "SnapToDelete e = []"
  shows "\<exists>e2. setRecommendations e = Inr e2
     \<and> Bars e2 = Bars e \<and> Nuggets e2 = Nuggets e \<and> recommendations e2 \<noteq> []
     \<and> distinct (SnapToDelete e2)
     \<and> set (SnapToDelete e2)
          = {SnapshotId (Snap (Nuggets e ! i)) | i. i < length ns \<and> deletableRecord e i}
     \<and> set (LtsToDelete e2)
          = {x. \<exists>i < length ns. deletableRecord e i \<and> x \<in> set (LTs (Nuggets e ! i))}
     \<and> set (LcsToDelete e2)
          = {x. \<exists>i < length ns. deletableRecord e i \<and> x \<in> set (LCs (Nuggets e ! i))}
     \<and> set (AmiToDelete e2)
          = {x. \<exists>i < length ns. deletableRecord e i \<and> x \<in> set (AMIIDs (Nuggets e ! i))}"
proof -
  from aggInv_totalGbs_ok [OF inv] obtain gbs where "totalGbs e = Inr gbs" by blast
  from setRecommendations_eq [OF this] obtain e2 where e2: "setRecommendations e = Inr e2"
    "Bars e2 = Bars e" "Nuggets e2 = Nuggets e"
    "LtsToDelete e2 = dedupeString (accLts (planOf e))"
    "LcsToDelete e2 = dedupeString (accLcs (planOf e))"
    "AmiToDelete e2 = dedupeString (accAmi (planOf e))"
    "SnapToDelete e2 = dedupeString (accSnap (planOf e))"
    "recommendations e2 \<noteq> []" by blast
  let ?D = "deletableMembers (Nuggets e) (Bars e)"
  have D: "set ?D = {i. i < length ns \<and> deletableRecord e i}"
    using inv by (rule deletableMembers_set)
  have "set (SnapToDelete e2) = (\<lambda>n. SnapshotId (Snap (Nuggets e ! n))) ` set ?D"
    by (simp add: e2(7) dedupeString_set planOf_def planBars_eq empty)
  then have s: "set (SnapToDelete e2)
          = {SnapshotId (Snap (Nuggets e ! i)) | i. i < length ns \<and> deletableRecord e i}"
    unfolding D by auto
  have "set (LtsToDelete e2) = (\<Union>n \<in> set ?D. set (LTs (Nuggets e ! n)))"
    by (simp add: e2(4) dedupeString_set planOf_def planBars_eq empty)
  then have lt: "set (LtsToDelete e2)
          = {x. \<exists>i < length ns. deletableRecord e i \<and> x \<in> set (LTs (Nuggets e ! i))}"
    unfolding D by auto
  have "set (LcsToDelete e2) = (\<Union>n \<in> set ?D. set (LCs (Nuggets e ! n)))"
    by (simp add: e2(5) dedupeString_set planOf_def planBars_eq empty)
  then have lc: "set (LcsToDelete e2)
          = {x. \<exists>i < length ns. deletableRecord e i \<and> x \<in> set (LCs (Nuggets e ! i))}"
    unfolding D by auto
  have "set (AmiToDelete e2) = (\<Union>n \<in> set ?D. set (AMIIDs (Nuggets e ! n)))"
    by (simp add: e2(6) dedupeString_set planOf_def planBars_eq empty)
  then have ami: "set (AmiToDelete e2)
          = {x. \<exists>i < length ns. deletableRecord e i \<and> x \<in> set (AMIIDs (Nuggets e ! i))}"
    unfolding D by auto
  have "distinct (SnapToDelete e2)" by (simp add: e2(7) dedupeString_distinct)
  then show ?thesis using e2(1,2,3,8) s lt lc ami by blast
qed


subsection \<open>The stages of \<open>Start\<close>\<close>


lemma planFrame_refl [simp]: "planFrame e e"
  by (simp add: planFrame_def)

lemma planFrame_trans: "planFrame e e' \<Longrightarrow> planFrame e' e'' \<Longrightarrow> planFrame e e''"
  by (simp add: planFrame_def)

lemma describeVolumes_frame: "planFrame e (describeVolumes dv inVols e)"
  unfolding describeVolumes_def
  by (induction inVols arbitrary: e) (auto simp: planFrame_def)

lemma fold_describeVolumes_frame: "planFrame e (fold (describeVolumes dv) batchVols e)"
proof (induction batchVols arbitrary: e)
  case Nil
  then show ?case by simp
next
  case (Cons b batchVols)
  show ?case using planFrame_trans [OF describeVolumes_frame Cons.IH] by simp
qed

lemma buildNuggets_frame: "planFrame e (fst (buildNuggets dv page e))"
  using fold_describeVolumes_frame [of e dv]
  by (auto simp: buildNuggets_def Let_def planFrame_def split: sum.splits)

lemma snapshotPage_frame: "planFrame e (fst (snd (fst (snapshotPage dv page pageNum e))))"
  using buildNuggets_frame [of e dv] by (simp add: snapshotPage_def Let_def)

lemma snapshotPages_frame: "planFrame e (fst (snd (snapshotPages dv pages pageNum e)))"
proof (induction pages arbitrary: pageNum e)
  case (Fail x)
  then show ?case by simp
next
  case (Last x)
  then show ?case using snapshotPage_frame [of e dv x pageNum] by simp
next
  case (More x pages)
  obtain pn e1 err c where sp: "snapshotPage dv x pageNum e = ((pn, e1, err), c)"
    by (metis prod.collapse)
  have f1: "planFrame e e1" using snapshotPage_frame [of e dv x pageNum] sp by simp
  show ?case
  proof (cases err)
    case None
    then show ?thesis using sp f1 planFrame_trans [OF f1 More.IH [of e1 pn]] by simp
  next
    case (Some a)
    then show ?thesis using sp f1 by simp
  qed
qed

lemma getSnapshots_frame: "planFrame e (fst (getSnapshots w e))"
  using snapshotPages_frame by (simp add: getSnapshots_def)

lemma correlate_frame: "planFrame e (fst (correlate w lcs lts asgs img i e))"
  by (simp add: correlate_def Let_def planFrame_def split: sum.splits)

lemma populate_bdms_frame: "planFrame e (fst (populate_bdms w lcs lts asgs img i bdms e))"
proof (induction bdms arbitrary: e)
  case Nil
  then show ?case by simp
next
  case (Cons bdm bdms)
  obtain e1 err where c: "correlate w lcs lts asgs img i e = (e1, err)" by (metis prod.collapse)
  have f1: "planFrame e e1" using correlate_frame [of e w lcs lts asgs img i] c by simp
  have f2: "planFrame e (fst (populate_bdms w lcs lts asgs img i bdms e1))"
    using planFrame_trans [OF f1 Cons.IH] .
  show ?case using c f1 f2 Cons.IH [of e]
    by (cases err) (simp_all split: option.splits)
qed

lemma populate_snaps_frame: "planFrame e (fst (populate_snaps w lcs lts asgs img is e))"
proof (induction "is" arbitrary: e)
  case Nil
  then show ?case by simp
next
  case (Cons i "is")
  obtain e1 err where c: "populate_bdms w lcs lts asgs img i (BlockDeviceMappings img) e = (e1, err)"
    by (metis prod.collapse)
  have f1: "planFrame e e1" using populate_bdms_frame [of e w lcs lts asgs img i "BlockDeviceMappings img"] c by simp
  show ?case using c f1 planFrame_trans [OF f1 Cons.IH [of e1]] by (cases err) simp_all
qed

lemma populate_images_frame: "planFrame e (fst (populate_images w lcs lts asgs images e))"
proof (induction images arbitrary: e)
  case Nil
  then show ?case by simp
next
  case (Cons img images)
  obtain e1 err where c: "populate_snaps w lcs lts asgs img [0..<length (Nuggets e)] e = (e1, err)"
    by (metis prod.collapse)
  have f1: "planFrame e e1" using populate_snaps_frame [of e w lcs lts asgs img "[0..<length (Nuggets e)]"] c by simp
  show ?case using c f1 planFrame_trans [OF f1 Cons.IH [of e1]] by (cases err) simp_all
qed

lemma populateNuggets_frame: "planFrame e (fst (populateNuggets w e))"
  using populate_images_frame by (simp add: populateNuggets_def split: sum.splits)

lemma setDateFilter_frame: "planFrame e (fst (setDateFilter w d e))"
  by (simp add: setDateFilter_def planFrame_def)

lemma getAccountNumber_frame: "planFrame e (fst (getAccountNumber w e))"
  by (simp add: getAccountNumber_def planFrame_def split: sum.splits)

text \<open>The shape of a run of \<open>Start\<close>.\<close>

lemma Start_cases:
  obtains (bad_date) e1 err where "setDateFilter w (dateFilter e0) e0 = (e1, Some err)"
      "Start w e0 = (e1, Some err)"
  | (bad_account) e1 e2 err where "setDateFilter w (dateFilter e0) e0 = (e1, None)"
      "getAccountNumber w e1 = (e2, Some err)" "Start w e0 = (e2, Some err)"
  | (bad_snapshots) e1 e2 e3 err where "setDateFilter w (dateFilter e0) e0 = (e1, None)"
      "getAccountNumber w e1 = (e2, None)" "getSnapshots w e2 = (e3, Some err)"
      "Start w e0 = (e3, Some err)"
  | (bad_populate) e1 e2 e3 e4 err where "setDateFilter w (dateFilter e0) e0 = (e1, None)"
      "getAccountNumber w e1 = (e2, None)" "getSnapshots w e2 = (e3, None)"
      "populateNuggets w e3 = (e4, Some err)" "Start w e0 = (e4, Some err)"
  | (panicked) e1 e2 e3 e4 err where "setDateFilter w (dateFilter e0) e0 = (e1, None)"
      "getAccountNumber w e1 = (e2, None)" "getSnapshots w e2 = (e3, None)"
      "populateNuggets w e3 = (e4, None)" "setRecommendations (addBars e4) = Inl err"
      "Start w e0 = (addBars e4, Some err)"
  | (completed) e1 e2 e3 e4 e5 where "setDateFilter w (dateFilter e0) e0 = (e1, None)"
      "getAccountNumber w e1 = (e2, None)" "getSnapshots w e2 = (e3, None)"
      "populateNuggets w e3 = (e4, None)" "setRecommendations (addBars e4) = Inr e5"
      "Start w e0 = (e5, None)"
proof -
  obtain e1 r1 where s1: "setDateFilter w (dateFilter e0) e0 = (e1, r1)" by (metis prod.collapse)
  obtain e2 r2 where s2: "getAccountNumber w e1 = (e2, r2)" by (metis prod.collapse)
  obtain e3 r3 where s3: "getSnapshots w e2 = (e3, r3)" by (metis prod.collapse)
  obtain e4 r4 where s4: "populateNuggets w e3 = (e4, r4)" by (metis prod.collapse)
  show ?thesis
  proof (cases r1)
    case (Some err)
    then show ?thesis using s1 bad_date by (simp add: Start_def)
  next
    case n1: None
    show ?thesis
    proof (cases r2)
      case (Some err)
      then show ?thesis using s1 s2 n1 bad_account by (simp add: Start_def)
    next
      case n2: None
      show ?thesis
      proof (cases r3)
        case (Some err)
        then show ?thesis using s1 s2 s3 n1 n2 bad_snapshots by (simp add: Start_def)
      next
        case n3: None
        show ?thesis
        proof (cases r4)
          case (Some err)
          then show ?thesis using s1 s2 s3 s4 n1 n2 n3 bad_populate by (simp add: Start_def)
        next
          case n4: None
          show ?thesis
          proof (cases "setRecommendations (addBars e4)")
            case (Inl err)
            then show ?thesis using s1 s2 s3 s4 n1 n2 n3 n4 panicked by (simp add: Start_def)
          next
            case (Inr e5)
            then show ?thesis using s1 s2 s3 s4 n1 n2 n3 n4 completed by (simp add: Start_def)
          qed
        qed
      qed
    qed
  qed
qed



lemma count_list_distinct: "distinct xs \<Longrightarrow> x \<in> set xs \<Longrightarrow> count_list xs x = 1"
  by (induction xs) (auto simp: count_list_0_iff)

lemma aggInv_cong:
  assumes "Bars e' = Bars e" "Nuggets e' = Nuggets e" "aggInv ns m e"
  shows "aggInv ns m e'"
  using assms(3) unfolding aggInv_def assms(1,2) .

lemma deletableRecord_cong:
  "Bars e' = Bars e \<Longrightarrow> Nuggets e' = Nuggets e \<Longrightarrow> deletableRecord e' i = deletableRecord e i"
  by (simp only: deletableRecord_def)

lemma New_fresh:
  assumes "New input = (e0, None)"
  shows "Bars e0 = []" "Nuggets e0 = []" "LtsToDelete e0 = []" "LcsToDelete e0 = []"
    "AmiToDelete e0 = []" "SnapToDelete e0 = []" "recommendations e0 = []" "realVols e0 = []"
  using assms
  by (auto simp: New_def Let_def zeroExpedition_def split: option.splits)

text \<open>A completed run ends in an aggregated state with the plan built from it.\<close>

lemma Start_completed:
  assumes new: "New input = (e0, None)" and run: "Start w e0 = (e, None)"
  obtains e1 ns where "aggInv ns (length ns) e1" "length (Nuggets e1) = length ns"
    "LtsToDelete e1 = []" "LcsToDelete e1 = []" "AmiToDelete e1 = []" "SnapToDelete e1 = []"
    "setRecommendations e1 = Inr e"
proof -
  from run obtain e1' e2 e3 e4 where st: "setDateFilter w (dateFilter e0) e0 = (e1', None)"
      "getAccountNumber w e1' = (e2, None)" "getSnapshots w e2 = (e3, None)"
      "populateNuggets w e3 = (e4, None)" "setRecommendations (addBars e4) = Inr e"
    by (cases rule: Start_cases [of w e0]) auto
  have "planFrame e0 e1'" using setDateFilter_frame [of e0 w "dateFilter e0"] st(1) by simp
  moreover have "planFrame e1' e2" using getAccountNumber_frame [of e1' w] st(2) by simp
  moreover have "planFrame e2 e3" using getSnapshots_frame [of e2 w] st(3) by simp
  moreover have "planFrame e3 e4" using populateNuggets_frame [of e3 w] st(4) by simp
  ultimately have f: "planFrame e0 e4" by (blast intro: planFrame_trans)
  have b: "Bars e4 = []" using f New_fresh(1) [OF new] by (simp add: planFrame_def)
  have inv: "aggInv (Nuggets e4) (length (Nuggets e4)) (addBars e4)"
    using b by (rule addBars_aggInv)
  have len: "length (Nuggets (addBars e4)) = length (Nuggets e4)"
    using inv by (simp add: aggInv_def)
  have lists: "LtsToDelete (addBars e4) = []" "LcsToDelete (addBars e4) = []"
    "AmiToDelete (addBars e4) = []" "SnapToDelete (addBars e4) = []"
    using f New_fresh [OF new]
    by (subst addBars_frame, simp add: planFrame_def)+
  show ?thesis using that [OF inv len lists st(5)] .
qed


text \<open>
  Claim C1. For every completed run (an expedition made by \<open>New\<close>, on which \<open>Start\<close>
  returns no error): a snapshot id is in the snapshot sequence of the plan if and only if
  it is the id of a record whose group has no volume and which has no autoscaling group
  and is shared with no account; when snapshot ids identify records, this holds record by
  record. The id of such a record occurs in the sequence exactly once. The launch
  templates, launch configurations and images of the plan are exactly those of such
  records, so a group whose volume exists contributes to no sequence. The group of a
  record is the one bar it is a member of, and its \<open>parentBar\<close>.
\<close>

theorem Start_deletion_plan:
  assumes new: "New input = (e0, None)" and run: "Start w e0 = (e, None)"
  shows "(\<forall>s. s \<in> set (SnapToDelete e) \<longleftrightarrow>
            (\<exists>i < length (Nuggets e). SnapshotId (Snap (Nuggets e ! i)) = s \<and> deletableRecord e i))
    \<and> (distinct (map (\<lambda>nug. SnapshotId (Snap nug)) (Nuggets e)) \<longrightarrow>
         (\<forall>i < length (Nuggets e).
            SnapshotId (Snap (Nuggets e ! i)) \<in> set (SnapToDelete e) \<longleftrightarrow> deletableRecord e i))
    \<and> (\<forall>i < length (Nuggets e). deletableRecord e i \<longrightarrow>
            count_list (SnapToDelete e) (SnapshotId (Snap (Nuggets e ! i))) = 1)
    \<and> (\<forall>x. x \<in> set (LtsToDelete e) \<longleftrightarrow>
            (\<exists>i < length (Nuggets e). deletableRecord e i \<and> x \<in> set (LTs (Nuggets e ! i))))
    \<and> (\<forall>x. x \<in> set (LcsToDelete e) \<longleftrightarrow>
            (\<exists>i < length (Nuggets e). deletableRecord e i \<and> x \<in> set (LCs (Nuggets e ! i))))
    \<and> (\<forall>x. x \<in> set (AmiToDelete e) \<longleftrightarrow>
            (\<exists>i < length (Nuggets e). deletableRecord e i \<and> x \<in> set (AMIIDs (Nuggets e ! i))))
    \<and> (\<forall>i < length (Nuggets e). \<exists>k < length (Bars e).
            parentBar (Nuggets e ! i) = Some k \<and> i \<in> set (BarNuggets (Bars e ! k))
          \<and> (\<forall>k' < length (Bars e). i \<in> set (BarNuggets (Bars e ! k')) \<longrightarrow> k' = k))"
proof -
  from Start_completed [OF new run] obtain e1 ns where
    inv: "aggInv ns (length ns) e1" and len: "length (Nuggets e1) = length ns"
    and empty: "LtsToDelete e1 = []" "LcsToDelete e1 = []" "AmiToDelete e1 = []"
      "SnapToDelete e1 = []"
    and set: "setRecommendations e1 = Inr e" by blast
  from plan_of_aggregated [OF inv empty] set
  have same: "Bars e = Bars e1" "Nuggets e = Nuggets e1"
    and dist: "distinct (SnapToDelete e)"
    and snap: "set (SnapToDelete e)
          = {SnapshotId (Snap (Nuggets e1 ! i)) | i. i < length ns \<and> deletableRecord e1 i}"
    and lt: "set (LtsToDelete e)
          = {x. \<exists>i < length ns. deletableRecord e1 i \<and> x \<in> set (LTs (Nuggets e1 ! i))}"
    and lc: "set (LcsToDelete e)
          = {x. \<exists>i < length ns. deletableRecord e1 i \<and> x \<in> set (LCs (Nuggets e1 ! i))}"
    and ami: "set (AmiToDelete e)
          = {x. \<exists>i < length ns. deletableRecord e1 i \<and> x \<in> set (AMIIDs (Nuggets e1 ! i))}"
    by auto
  have del: "deletableRecord e1 i = deletableRecord e i" for i
    using same by (simp only: deletableRecord_def)
  have n: "length ns = length (Nuggets e)" using len same by simp
  have c1: "\<forall>s. s \<in> set (SnapToDelete e) \<longleftrightarrow>
            (\<exists>i < length (Nuggets e). SnapshotId (Snap (Nuggets e ! i)) = s \<and> deletableRecord e i)"
    unfolding snap del n same by auto
  have c2: "distinct (map (\<lambda>nug. SnapshotId (Snap nug)) (Nuggets e)) \<longrightarrow>
         (\<forall>i < length (Nuggets e).
            SnapshotId (Snap (Nuggets e ! i)) \<in> set (SnapToDelete e) \<longleftrightarrow> deletableRecord e i)"
  proof (intro impI allI)
    fix i assume d: "distinct (map (\<lambda>nug. SnapshotId (Snap nug)) (Nuggets e))"
      and i: "i < length (Nuggets e)"
    show "SnapshotId (Snap (Nuggets e ! i)) \<in> set (SnapToDelete e) \<longleftrightarrow> deletableRecord e i"
    proof
      assume "SnapshotId (Snap (Nuggets e ! i)) \<in> set (SnapToDelete e)"
      with c1 obtain j where j: "j < length (Nuggets e)"
        "SnapshotId (Snap (Nuggets e ! j)) = SnapshotId (Snap (Nuggets e ! i))"
        "deletableRecord e j" by blast
      from j(1,2) i have "map (\<lambda>nug. SnapshotId (Snap nug)) (Nuggets e) ! j
          = map (\<lambda>nug. SnapshotId (Snap nug)) (Nuggets e) ! i" by simp
      then have "j = i" using nth_eq_iff_index_eq [OF d, of j i] j(1) i by simp
      with j(3) show "deletableRecord e i" by simp
    next
      assume "deletableRecord e i"
      with c1 i show "SnapshotId (Snap (Nuggets e ! i)) \<in> set (SnapToDelete e)" by blast
    qed
  qed
  have c3: "\<forall>i < length (Nuggets e). deletableRecord e i \<longrightarrow>
            count_list (SnapToDelete e) (SnapshotId (Snap (Nuggets e ! i))) = 1"
    using c1 dist by (blast intro: count_list_distinct)
  have c4: "\<forall>x. x \<in> set (LtsToDelete e) \<longleftrightarrow>
            (\<exists>i < length (Nuggets e). deletableRecord e i \<and> x \<in> set (LTs (Nuggets e ! i)))"
    unfolding lt del n same by auto
  have c5: "\<forall>x. x \<in> set (LcsToDelete e) \<longleftrightarrow>
            (\<exists>i < length (Nuggets e). deletableRecord e i \<and> x \<in> set (LCs (Nuggets e ! i)))"
    unfolding lc del n same by auto
  have c6: "\<forall>x. x \<in> set (AmiToDelete e) \<longleftrightarrow>
            (\<exists>i < length (Nuggets e). deletableRecord e i \<and> x \<in> set (AMIIDs (Nuggets e ! i)))"
    unfolding ami del n same by auto
  have inv': "aggInv ns (length ns) e" using aggInv_cong [OF same inv] .
  have c7: "\<forall>i < length (Nuggets e). \<exists>k < length (Bars e).
            parentBar (Nuggets e ! i) = Some k \<and> i \<in> set (BarNuggets (Bars e ! k))
          \<and> (\<forall>k' < length (Bars e). i \<in> set (BarNuggets (Bars e ! k')) \<longrightarrow> k' = k)"
  proof (intro allI impI)
    fix i assume "i < length (Nuggets e)"
    then have i: "i < length ns" using n by simp
    from aggInv_group [OF inv' i] obtain k where k: "k < length (Bars e)"
      "parentBar (Nuggets e ! i) = Some k" "i \<in> set (BarNuggets (Bars e ! k))"
      "\<And>b. b \<in> set (Bars e) \<Longrightarrow> i \<in> set (BarNuggets b) \<Longrightarrow> b = Bars e ! k" by blast
    have dist: "distinct (map BarVolumeId (Bars e))" using inv' by (simp add: aggInv_def)
    have "k' = k" if k': "k' < length (Bars e)" "i \<in> set (BarNuggets (Bars e ! k'))" for k'
    proof -
      have "Bars e ! k' = Bars e ! k" using k(4) [of "Bars e ! k'"] k' by simp
      then have "map BarVolumeId (Bars e) ! k' = map BarVolumeId (Bars e) ! k"
        using k'(1) k(1) by simp
      then show ?thesis using nth_eq_iff_index_eq [OF dist, of k' k] k'(1) k(1) by simp
    qed
    then show "\<exists>k < length (Bars e).
            parentBar (Nuggets e ! i) = Some k \<and> i \<in> set (BarNuggets (Bars e ! k))
          \<and> (\<forall>k' < length (Bars e). i \<in> set (BarNuggets (Bars e ! k')) \<longrightarrow> k' = k)"
      using k(1,2,3) by blast
  qed
  show ?thesis using c1 c2 c3 c4 c5 c6 c7 by blast
qed


subsection \<open>The example run\<close>


lemmas intake_defs =
  getSnapshots_def snapshotPage_def buildNuggets_def dedupeStringPointer_def
  makeBatchesStringPointer_def makeBatches_full_more makeBatches_full_done go_slice_def
  signed_divide_int_def signed_modulo_int_def describeVolumes_def describeVolume_def
  markHasVol_def newNugget_def Let_def

lemmas correlation_defs =
  populateNuggets_def describeLaunchConfigurations_def describeLaunchTemplates_def
  describeASGs_def describeImagesOwnedByThisAccount_def describe_all_def correlate_def
  imageSharedTo_def Let_def

lemmas aggregation_defs = addBars_def addBar_def Let_def

lemmas plan_defs = setRecommendations_def planOf_def totalGbs_def dedupeString_def Let_def

lemmas ex_defs = exState_def exNugget_def exSnapshot_def exBdm_def

lemma exNew: "New exInput = (exState [] [] [] [] [] [] [] 0 [] [], None)"
  by (simp add: New_def exInput_def orDefault_def zeroExpedition_def exState_def)

lemma exStage0:
  "setDateFilter exProvider ''2019-01-01'' (exState [] [] [] [] [] [] [] 0 [] [])
     = (exState [] [] [] [] [] [] [] 100 [] [], None)"
  "getAccountNumber exProvider (exState [] [] [] [] [] [] [] 100 [] [])
     = (exState [] [] [] [] [] [] ''123456789012'' 100 [] [], None)"
  "dateFilter (exState [] [] [] [] [] [] [] 0 [] []) = ''2019-01-01''"
  by (simp_all add: setDateFilter_def getAccountNumber_def exProvider_def exState_def)

lemma exStage1:
  "getSnapshots exProvider (exState [] [] [] [] [] [] ''123456789012'' 100 [] [])
     = (exState [] exNuggets1 [] [] [] [] ''123456789012'' 100 [''vol-2''] [], None)"
  by (simp add: intake_defs exProvider_def ex_defs exNuggets1_def)

lemma exStage2:
  "populateNuggets exProvider
     (exState [] exNuggets1 [] [] [] [] ''123456789012'' 100 [''vol-2''] [])
     = (exState [] exNuggets2 [] [] [] [] ''123456789012'' 100 [''vol-2''] [], None)"
  by (simp add: correlation_defs exProvider_def ex_defs exNuggets1_def exNuggets2_def)

lemma exStage3:
  "addBars (exState [] exNuggets2 [] [] [] [] ''123456789012'' 100 [''vol-2''] [])
     = exState exBars exNuggets3 [] [] [] [] ''123456789012'' 100 [''vol-2''] []"
  by (simp add: aggregation_defs ex_defs exNuggets2_def exNuggets3_def exBars_def)

lemma exStage4:
  "setRecommendations (exState exBars exNuggets3 [] [] [] [] ''123456789012'' 100 [''vol-2''] [])
     = Inr exFinal"
  by (simp add: plan_defs ex_defs exNuggets3_def exBars_def exFinal_def)

lemma exRun: "Start exProvider (exState [] [] [] [] [] [] [] 0 [] []) = (exFinal, None)"
  by (simp only: Start_def exStage0 exStage1 exStage2 exStage3 exStage4
       prod.case option.case sum.case)

lemma exFinal_deletable:
  "deletableRecord exFinal 0" "\<not> deletableRecord exFinal 1" "\<not> deletableRecord exFinal 2"
  by (simp_all add: deletableRecord_def exFinal_def ex_defs exNuggets3_def exBars_def)

theorem Start_deletion_plan_witness:
  "New exInput = (exState [] [] [] [] [] [] [] 0 [] [], None)
   \<and> Start exProvider (exState [] [] [] [] [] [] [] 0 [] []) = (exFinal, None)
   \<and> SnapToDelete exFinal = [''snap-A'']
   \<and> deletableRecord exFinal 0 \<and> \<not> deletableRecord exFinal 1 \<and> \<not> deletableRecord exFinal 2
   \<and> (''snap-A'' \<in> set (SnapToDelete exFinal)) =
       (\<exists>i < length (Nuggets exFinal).
           SnapshotId (Snap (Nuggets exFinal ! i)) = ''snap-A'' \<and> deletableRecord exFinal i)
   \<and> (''snap-C'' \<in> set (SnapToDelete exFinal)) =
       (\<exists>i < length (Nuggets exFinal).
           SnapshotId (Snap (Nuggets exFinal ! i)) = ''snap-C'' \<and> deletableRecord exFinal i)"
proof -
  have plan: "SnapToDelete exFinal = [''snap-A'']"
    by (simp add: exFinal_def exState_def)
  from Start_deletion_plan [OF exNew exRun]
  have iff: "\<forall>s. s \<in> set (SnapToDelete exFinal) \<longleftrightarrow>
      (\<exists>i < length (Nuggets exFinal).
          SnapshotId (Snap (Nuggets exFinal ! i)) = s \<and> deletableRecord exFinal i)"
    by (rule conjunct1)
  show ?thesis using exNew exRun plan exFinal_deletable iff by blast
qed


subsection \<open>Aggregation on examples; the flag of a group\<close>


lemma exAggregate_pair:
  "exAggregate (exPair h1 h2) =
     exState [\<lparr>BarVolumeId = ''vol-3'', BarNuggets = [0, 1], BarHasVol = h1\<rparr>]
       [exNugget (exSnapshot ''snap-D'' ''vol-3'' 20) h1 [] [] [] [] [] (Some 0),
        exNugget (exSnapshot ''snap-E'' ''vol-3'' 20) h2 [] [] [] [] [] (Some 0)]
       [] [] [] [] ''123456789012'' 100 [] []"
  by (simp add: exAggregate_def aggregation_defs ex_defs exPair_def)

lemma exAggregate_trio:
  "exAggregate exTrio =
     exState [\<lparr>BarVolumeId = ''vol-3'', BarNuggets = [0, 2], BarHasVol = False\<rparr>,
              \<lparr>BarVolumeId = ''vol-1'', BarNuggets = [1], BarHasVol = False\<rparr>]
       [exNugget (exSnapshot ''snap-D'' ''vol-3'' 20) False [] [] [] [] [] (Some 0),
        exNugget (exSnapshot ''snap-A'' ''vol-1'' 20) False [] [] [] [] [] (Some 1),
        exNugget (exSnapshot ''snap-E'' ''vol-3'' 20) False [] [] [] [] [] (Some 0)]
       [] [] [] [] ''123456789012'' 100 [] []"
  by (simp add: exAggregate_def aggregation_defs ex_defs exTrio_def)

theorem addBars_partition_witness:
  "Bars (exState [] exTrio [] [] [] [] ''123456789012'' 100 [] []) = []
   \<and> map BarNuggets (Bars (exAggregate exTrio)) = [[0, 2], [1]]
   \<and> map BarVolumeId (Bars (exAggregate exTrio)) = [''vol-3'', ''vol-1'']
   \<and> mset (concat (map BarNuggets (Bars (exAggregate exTrio)))) = mset [0..<3]"
proof -
  have b: "Bars (exState [] exTrio [] [] [] [] ''123456789012'' 100 [] []) = []"
    by (simp add: exState_def)
  have n: "length (Nuggets (exState [] exTrio [] [] [] [] ''123456789012'' 100 [] [])) = 3"
    by (simp add: exState_def exTrio_def)
  from addBars_partition [OF b]
  have "mset (concat (map BarNuggets (Bars (exAggregate exTrio)))) = mset [0..<3]"
    unfolding exAggregate_def n by blast
  moreover have "map BarNuggets (Bars (exAggregate exTrio)) = [[0, 2], [1]]"
    "map BarVolumeId (Bars (exAggregate exTrio)) = [''vol-3'', ''vol-1'']"
    by (simp_all add: exAggregate_trio exState_def)
  ultimately show ?thesis using b by blast
qed

lemma addBar_scan_snd_found:
  "vol \<in> BarVolumeId ` set bars \<or> p \<noteq> None \<Longrightarrow> snd (addBar_scan vol n k bars p) \<noteq> None"
  by (induction bars arbitrary: k p) (auto simp: case_prod_beta)

lemma addBar_hasVol:
  "map BarHasVol (Bars (addBar e n))
     = map BarHasVol (Bars e)
       @ (if VolumeId (Snap (Nuggets e ! n)) \<in> BarVolumeId ` set (Bars e) then []
          else [HasVol (Nuggets e ! n)])"
proof (cases "VolumeId (Snap (Nuggets e ! n)) \<in> BarVolumeId ` set (Bars e)")
  case True
  let ?vol = "VolumeId (Snap (Nuggets e ! n))"
  from True have "snd (addBar_scan ?vol n 0 (Bars e) None) \<noteq> None"
    by (simp add: addBar_scan_snd_found)
  then obtain k where
    "addBar_scan ?vol n 0 (Bars e) None = (map (addMember ?vol n) (Bars e), Some k)"
    using addBar_scan_fst [of ?vol n 0 "Bars e" None] by (metis not_None_eq prod.collapse)
  then show ?thesis using True by (simp add: addBar_def Let_def comp_def)
next
  case False
  then show ?thesis by (simp add: addBar_new)
qed

lemma exSharedNew:
  "New (exInput\<lparr>VolumeBatchSize := Some (- 2)\<rparr>) = (exSharedState [] [] [] [] 0 [] [], None)"
  by (simp add: New_def exInput_def orDefault_def zeroExpedition_def exState_def exSharedState_def)

lemma exShared0:
  "setDateFilter exProviderShared ''2019-01-01'' (exSharedState [] [] [] [] 0 [] [])
     = (exSharedState [] [] [] [] 100 [] [], None)"
  "getAccountNumber exProviderShared (exSharedState [] [] [] [] 100 [] [])
     = (exSharedState [] [] [] ''123456789012'' 100 [] [], None)"
  "dateFilter (exSharedState [] [] [] [] 0 [] []) = ''2019-01-01''"
  by (simp_all add: setDateFilter_def getAccountNumber_def exProviderShared_def exProvider_def
        exState_def exSharedState_def)

lemma exShared1:
  "getSnapshots exProviderShared (exSharedState [] [] [] ''123456789012'' 100 [] [])
     = (exSharedState [] (exSharedNuggets None None) [] ''123456789012'' 100 [''vol-3''] [], None)"
  by (simp add: intake_defs exProviderShared_def exProvider_def ex_defs exSharedState_def
        exSharedNuggets_def)

lemma exShared2:
  "populateNuggets exProviderShared
     (exSharedState [] (exSharedNuggets None None) [] ''123456789012'' 100 [''vol-3''] [])
     = (exSharedState [] (exSharedNuggets None None) [] ''123456789012'' 100 [''vol-3''] [], None)"
  by (simp add: correlation_defs exProviderShared_def exProvider_def ex_defs exSharedState_def
        exSharedNuggets_def)

lemma exShared3:
  "addBars (exSharedState [] (exSharedNuggets None None) [] ''123456789012'' 100 [''vol-3''] [])
     = exSharedState exSharedBars (exSharedNuggets (Some 0) (Some 1)) [] ''123456789012'' 100
         [''vol-3''] []"
  by (simp add: aggregation_defs ex_defs exSharedState_def exSharedNuggets_def exSharedBars_def)

lemma exShared4:
  "setRecommendations
     (exSharedState exSharedBars (exSharedNuggets (Some 0) (Some 1)) [] ''123456789012'' 100
         [''vol-3''] [])
     = Inr exSharedFinal"
  by (simp add: plan_defs ex_defs exSharedState_def exSharedNuggets_def exSharedBars_def
        exSharedFinal_def)

lemma exSharedRun:
  "Start exProviderShared (exSharedState [] [] [] [] 0 [] []) = (exSharedFinal, None)"
  by (simp only: Start_def exShared0 exShared1 exShared2 exShared3 exShared4
       prod.case option.case sum.case)

text \<open>
  Claim C3. \<open>addBar\<close> gives a group its \<open>HasVol\<close> flag when it creates the group, from
  the record that creates it, and never writes the flag of a group that exists: after
  \<open>addBar\<close> the flags of the groups are those before it, followed by the flag of the
  record when the record made a new group. So the flag of a group is the flag of its
  first member whatever the flags of the later ones, not their disjunction. At a
  concrete input: the run made by \<open>New\<close> with \<open>VolumeBatchSize = -2\<close> and \<open>Start\<close> on
  the account of \<open>exProviderShared\<close> ends without an error; \<open>snap-D\<close> (flag false) and
  \<open>snap-E\<close> (flag true, its volume \<open>vol-3\<close> exists) are the members of one group,
  the flag of the group is false, and both snapshots are in \<open>SnapToDelete\<close>. On the
  two records alone: the flag of their group is false when the record without a volume
  comes first and true when it comes second.
\<close>

theorem addBar_keeps_first_member_hasVol:
  "map BarHasVol (Bars (addBar e n))
     = map BarHasVol (Bars e)
       @ (if VolumeId (Snap (Nuggets e ! n)) \<in> BarVolumeId ` set (Bars e) then []
          else [HasVol (Nuggets e ! n)])
   \<and> New (exInput\<lparr>VolumeBatchSize := Some (- 2)\<rparr>) = (exSharedState [] [] [] [] 0 [] [], None)
   \<and> Start exProviderShared (exSharedState [] [] [] [] 0 [] []) = (exSharedFinal, None)
   \<and> map (\<lambda>nug. (SnapshotId (Snap nug), VolumeId (Snap nug), HasVol nug)) (Nuggets exSharedFinal)
       = [(''snap-D'', ''vol-3'', False), (''snap-X'', ''vol-5'', False),
          (''snap-E'', ''vol-3'', True)]
   \<and> map (\<lambda>b. (BarVolumeId b, BarNuggets b, BarHasVol b)) (Bars exSharedFinal)
       = [(''vol-3'', [0, 2], False), (''vol-5'', [1], False)]
   \<and> SnapToDelete exSharedFinal = [''snap-D'', ''snap-E'', ''snap-X'']
   \<and> map BarHasVol (Bars (exAggregate (exPair False True))) = [False]
   \<and> map HasVol (Nuggets (exAggregate (exPair False True))) = [False, True]
   \<and> map BarHasVol (Bars (exAggregate (exPair True False))) = [True]"
proof -
  have example:
    "map (\<lambda>nug. (SnapshotId (Snap nug), VolumeId (Snap nug), HasVol nug)) (Nuggets exSharedFinal)
       = [(''snap-D'', ''vol-3'', False), (''snap-X'', ''vol-5'', False),
          (''snap-E'', ''vol-3'', True)]
   \<and> map (\<lambda>b. (BarVolumeId b, BarNuggets b, BarHasVol b)) (Bars exSharedFinal)
       = [(''vol-3'', [0, 2], False), (''vol-5'', [1], False)]
   \<and> SnapToDelete exSharedFinal = [''snap-D'', ''snap-E'', ''snap-X'']
   \<and> map BarHasVol (Bars (exAggregate (exPair False True))) = [False]
   \<and> map HasVol (Nuggets (exAggregate (exPair False True))) = [False, True]
   \<and> map BarHasVol (Bars (exAggregate (exPair True False))) = [True]"
    by (simp add: exAggregate_pair exSharedFinal_def exSharedState_def exSharedNuggets_def
          exSharedBars_def ex_defs)
  show ?thesis using addBar_hasVol [of e n] exSharedNew exSharedRun example by blast
qed


subsection \<open>Page cap, autoscaling groups and cost on examples\<close>


text \<open>
  Claim C5. The callback counts and processes the page it is given and only then
  returns \<open>pageNum <= maxPages\<close>: after page number \<open>maxPages\<close> the paginator is told to
  go on. At a concrete input: with \<open>maxPages = 1\<close> and three pages on offer, the
  callback consumes two pages and the snapshots of both become nuggets; with
  \<open>maxPages = 0\<close> it consumes one.
\<close>

theorem snapshotPages_one_page_beyond_maxPages:
  "fst (fst (snapshotPage dv page pageNum e)) = pageNum + 1
   \<and> snd (snapshotPage dv page pageNum e) = (pageNum + 1 \<le> maxPages e)
   \<and> maxPages (exCapped 1) = 1
   \<and> fst (snapshotPages (DescribeVolumes exProvider) exPages 0 (exCapped 1)) = 2
   \<and> map (\<lambda>nug. SnapshotId (Snap nug))
        (Nuggets (fst (snd (snapshotPages (DescribeVolumes exProvider) exPages 0 (exCapped 1)))))
       = [''snap-A'', ''snap-B'']
   \<and> snd (snd (snapshotPages (DescribeVolumes exProvider) exPages 0 (exCapped 1))) = None
   \<and> map (\<lambda>nug. SnapshotId (Snap nug)) (Nuggets (fst (getSnapshots exProviderPaged (exCapped 1))))
       = [''snap-A'', ''snap-B'']
   \<and> maxPages (exCapped 0) = 0
   \<and> fst (snapshotPages (DescribeVolumes exProvider) exPages 0 (exCapped 0)) = 1"
  by (simp add: snapshotPage_def Let_def)
     (simp add: intake_defs exProvider_def exProviderPaged_def exPages_def exCapped_def ex_defs)

lemma exTwoLcs_correlate:
  "populateNuggets exProviderTwoLcs
     (exState [] exNuggets1 [] [] [] [] ''123456789012'' 100 [''vol-2''] [])
     = (exState [] exNuggetsTwoLcs [] [] [] [] ''123456789012'' 100 [''vol-2''] [], None)"
  by (simp add: correlation_defs exProviderTwoLcs_def exProvider_def ex_defs exNuggets1_def
       exNuggetsTwoLcs_def)

lemma exTwoLcs_plan:
  "map_sum id (\<lambda>e. (LcsToDelete e, AmiToDelete e, SnapToDelete e))
     (setRecommendations
        (addBars (exState [] exNuggetsTwoLcs [] [] [] [] ''123456789012'' 100 [''vol-2''] [])))
     = Inr ([''lc-1'', ''lc-2''], [''ami-1''], [''snap-A'', ''snap-B''])"
  by (simp add: aggregation_defs plan_defs ex_defs exNuggetsTwoLcs_def)

text \<open>
  Claim C7. The loops over \<open>snap.LCs\<close> and \<open>snap.LTs\<close> (the two folds of
  \<open>correlate\<close>) end with the search result of the last name alone, whatever the names
  before it matched. At a concrete input: \<open>snap-B\<close> is mapped into \<open>ami-1\<close>, which the
  launch configurations \<open>lc-1\<close> and \<open>lc-2\<close> use; \<open>asg-1\<close> uses \<open>lc-1\<close>, no
  group uses \<open>lc-2\<close>. After correlation the record has both launch configurations
  and no autoscaling group: the search for \<open>lc-2\<close> has replaced the result of the
  search for \<open>lc-1\<close>. The plan then lists \<open>snap-B\<close>, \<open>ami-1\<close> and both launch
  configurations for deletion.
\<close>

theorem populateNuggets_keeps_last_ASG_search_only:
  "fold (\<lambda>lc a. snd (lcInASGs lc asgs)) (lcs @ [lc]) a = snd (lcInASGs lc asgs)
   \<and> fold (\<lambda>lt a. snd (ltInASGs lt asgs)) (lts @ [lt]) a = snd (ltInASGs lt asgs)
   \<and> populateNuggets exProviderTwoLcs
     (exState [] exNuggets1 [] [] [] [] ''123456789012'' 100 [''vol-2''] [])
     = (exState [] exNuggetsTwoLcs [] [] [] [] ''123456789012'' 100 [''vol-2''] [], None)
   \<and> LCs (exNuggetsTwoLcs ! 1) = [''lc-1'', ''lc-2'']
   \<and> map_sum id (\<lambda>asgs. lcInASGs ''lc-1'' asgs) (describeASGs exProviderTwoLcs)
       = Inr (True, [''asg-1''])
   \<and> map_sum id (\<lambda>asgs. lcInASGs ''lc-2'' asgs) (describeASGs exProviderTwoLcs)
       = Inr (False, [])
   \<and> ASGs (exNuggetsTwoLcs ! 1) = []
   \<and> map_sum id (\<lambda>e. (LcsToDelete e, AmiToDelete e, SnapToDelete e))
        (setRecommendations
           (addBars (exState [] exNuggetsTwoLcs [] [] [] [] ''123456789012'' 100 [''vol-2''] [])))
       = Inr ([''lc-1'', ''lc-2''], [''ami-1''], [''snap-A'', ''snap-B''])"
  by (simp add: exTwoLcs_correlate exTwoLcs_plan)
     (simp add: exNuggetsTwoLcs_def exNugget_def describeASGs_def describe_all_def
        exProviderTwoLcs_def exProvider_def)

text \<open>
  Claim C2. \<open>barsToDelete\<close> holds the group of every deletable member of every
  group without a volume, one entry for each such member, and the cost loop adds the
  size of the first member of the group once for each entry. At a concrete input: two
  deletable snapshots of the one deleted volume
  \<open>vol-3\<close> (20 GB) form one group; the group is appended to \<open>barsToDelete\<close> once
  for each of them, and \<open>totalGbs\<close> is 40, not 20. A lone deletable 20 GB snapshot
  gives 20.
\<close>

theorem totalGbs_counts_group_once_per_member:
  "barsToDelete (planOf e)
     = map (\<lambda>n. parentBar (Nuggets e ! n)) (deletableMembers (Nuggets e) (Bars e))
   \<and> totalGbs (exAggregate (exPair False False)) = Inr 40
   \<and> map BarNuggets (Bars (exAggregate (exPair False False))) = [[0, 1]]
   \<and> map (\<lambda>nug. VolumeSize (Snap nug)) (exPair False False) = [20, 20]
   \<and> barsToDelete (planOf (exAggregate (exPair False False))) = [Some 0, Some 0]
   \<and> map_sum id recommendations (setRecommendations (exAggregate (exPair False False)))
       = Inr [IntroLine 2 ''2019-01-01'', CaveatLine, LtHeader, LcHeader, AmiHeader,
              SnapHeader, Item ''snap-D'', Item ''snap-E'', SparedHasVolLine 0,
              SparedAsgShareLine 0, CostLine 40 (1 / 20) 2]
   \<and> totalGbs (exAggregate [exNugget (exSnapshot ''snap-A'' ''vol-1'' 20) False [] [] [] [] [] None])
       = Inr 20"
proof -
  have general: "barsToDelete (planOf e)
     = map (\<lambda>n. parentBar (Nuggets e ! n)) (deletableMembers (Nuggets e) (Bars e))"
    by (simp add: planOf_def planBars_eq)
  have example:
    "totalGbs (exAggregate (exPair False False)) = Inr 40
   \<and> map BarNuggets (Bars (exAggregate (exPair False False))) = [[0, 1]]
   \<and> map (\<lambda>nug. VolumeSize (Snap nug)) (exPair False False) = [20, 20]
   \<and> barsToDelete (planOf (exAggregate (exPair False False))) = [Some 0, Some 0]
   \<and> map_sum id recommendations (setRecommendations (exAggregate (exPair False False)))
       = Inr [IntroLine 2 ''2019-01-01'', CaveatLine, LtHeader, LcHeader, AmiHeader,
              SnapHeader, Item ''snap-D'', Item ''snap-E'', SparedHasVolLine 0,
              SparedAsgShareLine 0, CostLine 40 (1 / 20) 2]
   \<and> totalGbs (exAggregate [exNugget (exSnapshot ''snap-A'' ''vol-1'' 20) False [] [] [] [] [] None])
       = Inr 20"
    by (simp add: exAggregate_pair)
       (simp add: exAggregate_def aggregation_defs plan_defs ex_defs exPair_def)
  show ?thesis using general example by blast
qed

subsection \<open>Errors of the provider\<close>


lemma describeVolume_ignore:
  "describeVolume (DescribeVolumes (ignoreNotFound w)) = describeVolume (DescribeVolumes w)"
  by (auto simp: describeVolume_def ignoreNotFound_def fun_eq_iff split: sum.splits)

lemma describeVolumes_ignore:
  "describeVolumes (DescribeVolumes (ignoreNotFound w)) = describeVolumes (DescribeVolumes w)"
  by (simp add: describeVolumes_def describeVolume_ignore fun_eq_iff)

lemma buildNuggets_ignore:
  "buildNuggets (DescribeVolumes (ignoreNotFound w)) page e
     = buildNuggets (DescribeVolumes w) page e"
  unfolding buildNuggets_def describeVolumes_ignore by (rule refl)

lemma snapshotPage_ignore:
  "snapshotPage (DescribeVolumes (ignoreNotFound w)) page pageNum e
     = snapshotPage (DescribeVolumes w) page pageNum e"
  unfolding snapshotPage_def buildNuggets_ignore by (rule refl)

lemma snapshotPages_ignore:
  "snapshotPages (DescribeVolumes (ignoreNotFound w)) pages pageNum e
     = snapshotPages (DescribeVolumes w) pages pageNum e"
  by (induction pages arbitrary: pageNum e)
     (simp_all add: snapshotPage_ignore split: prod.splits option.splits)

lemma getSnapshots_ignore: "getSnapshots (ignoreNotFound w) = getSnapshots w"
proof -
  have "DescribeSnapshots (ignoreNotFound w) = DescribeSnapshots w"
    by (simp add: ignoreNotFound_def)
  then show ?thesis by (simp add: getSnapshots_def snapshotPages_ignore fun_eq_iff)
qed

lemma imageSharedTo_ignore: "imageSharedTo (ignoreNotFound w) = imageSharedTo w"
  by (simp add: imageSharedTo_def ignoreNotFound_def fun_eq_iff)

lemma correlate_ignore:
  "correlate (ignoreNotFound w) lcs lts asgs img i e = correlate w lcs lts asgs img i e"
  unfolding correlate_def imageSharedTo_ignore by (rule refl)

lemma populate_bdms_ignore:
  "populate_bdms (ignoreNotFound w) lcs lts asgs img i bdms e
     = populate_bdms w lcs lts asgs img i bdms e"
  by (induction bdms arbitrary: e)
     (simp_all add: correlate_ignore split: prod.splits option.splits)

lemma populate_snaps_ignore:
  "populate_snaps (ignoreNotFound w) lcs lts asgs img is e
     = populate_snaps w lcs lts asgs img is e"
  by (induction "is" arbitrary: e)
     (simp_all add: populate_bdms_ignore split: prod.splits option.splits)

lemma populate_images_ignore:
  "populate_images (ignoreNotFound w) lcs lts asgs images e
     = populate_images w lcs lts asgs images e"
  by (induction images arbitrary: e)
     (simp_all add: populate_snaps_ignore split: prod.splits option.splits)

lemma populateNuggets_ignore:
  "populateNuggets (ignoreNotFound w) e = populateNuggets w e"
proof -
  have eqs: "describeLaunchConfigurations (ignoreNotFound w) = describeLaunchConfigurations w"
    "describeLaunchTemplates (ignoreNotFound w) = describeLaunchTemplates w"
    "describeImagesOwnedByThisAccount (ignoreNotFound w) = describeImagesOwnedByThisAccount w"
    "describeASGs (ignoreNotFound w) = describeASGs w"
    by (simp_all add: describeLaunchConfigurations_def describeLaunchTemplates_def
          describeImagesOwnedByThisAccount_def describeASGs_def ignoreNotFound_def
          cong: sum.case_cong)
  show ?thesis unfolding populateNuggets_def eqs populate_images_ignore by (rule refl)
qed

lemma Start_ignore: "Start (ignoreNotFound w) e = Start w e"
proof -
  have eqs: "setDateFilter (ignoreNotFound w) = setDateFilter w"
    "getAccountNumber (ignoreNotFound w) = getAccountNumber w"
    by (simp_all add: setDateFilter_def getAccountNumber_def ignoreNotFound_def fun_eq_iff)
  show ?thesis unfolding Start_def eqs getSnapshots_ignore populateNuggets_ignore by (rule refl)
qed

lemma addBars_keeps:
  "recommendations (addBars e) = recommendations e" "LtsToDelete (addBars e) = LtsToDelete e"
  "LcsToDelete (addBars e) = LcsToDelete e" "AmiToDelete (addBars e) = AmiToDelete e"
  "SnapToDelete (addBars e) = SnapToDelete e"
  by (subst addBars_frame, simp)+

lemma Start_error_frame:
  assumes "snd (Start w e) = Some err"
  shows "recommendations (fst (Start w e)) = recommendations e
       \<and> LtsToDelete (fst (Start w e)) = LtsToDelete e
       \<and> LcsToDelete (fst (Start w e)) = LcsToDelete e
       \<and> AmiToDelete (fst (Start w e)) = AmiToDelete e
       \<and> SnapToDelete (fst (Start w e)) = SnapToDelete e"
proof (cases rule: Start_cases [of w e])
  case (bad_date e1 err)
  then show ?thesis using setDateFilter_frame [of e w "dateFilter e"]
    by (simp add: planFrame_def)
next
  case (bad_account e1 e2 err)
  have "planFrame e e2"
    using setDateFilter_frame [of e w "dateFilter e"] getAccountNumber_frame [of e1 w]
      bad_account by (auto intro: planFrame_trans)
  then show ?thesis using bad_account by (simp add: planFrame_def)
next
  case (bad_snapshots e1 e2 e3 err)
  have "planFrame e e3"
    using setDateFilter_frame [of e w "dateFilter e"] getAccountNumber_frame [of e1 w]
      getSnapshots_frame [of e2 w] bad_snapshots by (auto intro: planFrame_trans)
  then show ?thesis using bad_snapshots by (simp add: planFrame_def)
next
  case (bad_populate e1 e2 e3 e4 err)
  have "planFrame e e4"
    using setDateFilter_frame [of e w "dateFilter e"] getAccountNumber_frame [of e1 w]
      getSnapshots_frame [of e2 w] populateNuggets_frame [of e3 w] bad_populate
    by (auto intro: planFrame_trans)
  then show ?thesis using bad_populate by (simp add: planFrame_def)
next
  case (panicked e1 e2 e3 e4 err)
  have "planFrame e e4"
    using setDateFilter_frame [of e w "dateFilter e"] getAccountNumber_frame [of e1 w]
      getSnapshots_frame [of e2 w] populateNuggets_frame [of e3 w] panicked
    by (auto intro: planFrame_trans)
  then show ?thesis using panicked by (simp add: addBars_keeps planFrame_def)
next
  case (completed e1 e2 e3 e4 e5)
  then show ?thesis using assms by simp
qed

text \<open>The listings: which request fails, if any.\<close>

lemma describe_loop_fails:
  "describe_loop i items pages = Inl err \<longleftrightarrow> (\<exists>k. failsAfter pages = Some (k, err) \<and> i + k < 50)"
proof (induction pages arbitrary: i items)
  case (Fail x)
  then show ?case by auto
next
  case (Last x)
  then show ?case by simp
next
  case (More x pages)
  show ?case
  proof (cases "i < 50")
    case True
    have "(\<exists>k. failsAfter (More x pages) = Some (k, err) \<and> i + k < 50)
          \<longleftrightarrow> (\<exists>k'. failsAfter pages = Some (k', err) \<and> Suc i + k' < 50)"
      by (auto split: option.splits)
    then show ?thesis using True More.IH [of "Suc i" "items @ x"] by simp
  next
    case False
    then show ?thesis by (auto split: option.splits)
  qed
qed

lemma describe_all_fails:
  "describe_all pages = Inl err \<longleftrightarrow> (\<exists>k<49. failsAfter pages = Some (k, err))"
proof (cases pages)
  case (Fail x)
  then show ?thesis by (auto simp: describe_all_def)
next
  case (Last x)
  then show ?thesis by (simp add: describe_all_def)
next
  case (More x rest)
  have "(\<exists>k<49. failsAfter (More x rest) = Some (k, err))
        \<longleftrightarrow> (\<exists>k'. failsAfter rest = Some (k', err) \<and> 2 + k' < 50)"
    by (auto split: option.splits)
  then show ?thesis using More describe_loop_fails [of 2 x rest err]
    by (simp add: describe_all_def)
qed

lemma describeImages_fails:
  "describeImagesOwnedByThisAccount w = Inl err \<longleftrightarrow>
     (case GetCallerIdentity w of Inl e \<Rightarrow> e = err | Inr acct \<Rightarrow> DescribeImages w acct = Inl err)"
  by (simp add: describeImagesOwnedByThisAccount_def split: sum.splits)

text \<open>Snapshot intake: a request that fails before the page cap ends the run.\<close>

lemma describeVolumes_config:
  "maxPages (describeVolumes dv inVols e) = maxPages e
   \<and> volBatchSize (describeVolumes dv inVols e) = volBatchSize e"
  unfolding describeVolumes_def
  by (induction inVols arbitrary: e) auto

lemma fold_describeVolumes_config:
  "maxPages (fold (describeVolumes dv) batchVols e) = maxPages e
   \<and> volBatchSize (fold (describeVolumes dv) batchVols e) = volBatchSize e"
  by (induction batchVols arbitrary: e) (simp_all add: describeVolumes_config)

lemma makeBatches_returns:
  "batchSize \<noteq> 0 \<Longrightarrow> \<exists>batches. makeBatchesStringPointer xs batchSize = Inr batches"
proof (cases "1 \<le> batchSize")
  case True
  then show ?thesis using makeBatches_positive [of batchSize xs] by blast
next
  case False
  assume "batchSize \<noteq> 0"
  with False have "batchSize < 0" by simp
  then show ?thesis using makeBatches_negative [of batchSize xs] by blast
qed

lemma buildNuggets_config:
  assumes "volBatchSize e \<noteq> 0"
  shows "snd (buildNuggets dv page e) = None
       \<and> maxPages (fst (buildNuggets dv page e)) = maxPages e
       \<and> volBatchSize (fst (buildNuggets dv page e)) = volBatchSize e"
proof -
  obtain batches where
    "makeBatchesStringPointer (dedupeStringPointer (map VolumeId page)) (volBatchSize e)
       = Inr batches"
    using makeBatches_returns [OF assms] by blast
  then show ?thesis
    by (simp add: buildNuggets_def Let_def fold_describeVolumes_config)
qed

lemma snapshotPage_config:
  assumes "volBatchSize e \<noteq> 0"
  shows "snapshotPage dv page pageNum e
           = ((pageNum + 1, fst (snd (fst (snapshotPage dv page pageNum e))), None),
              pageNum + 1 \<le> maxPages e)
       \<and> maxPages (fst (snd (fst (snapshotPage dv page pageNum e)))) = maxPages e
       \<and> volBatchSize (fst (snd (fst (snapshotPage dv page pageNum e)))) = volBatchSize e"
  using buildNuggets_config [OF assms, of dv]
  by (simp add: snapshotPage_def Let_def prod_eq_iff)

lemma snapshotPages_fails:
  assumes "failsAfter pages = Some (k, err)" "k = 0 \<or> pageNum + int k \<le> maxPages e"
    "volBatchSize e \<noteq> 0"
  shows "snd (snd (snapshotPages dv pages pageNum e)) = Some err"
  using assms
proof (induction pages arbitrary: k pageNum e)
  case (Fail x)
  then show ?case by simp
next
  case (Last x)
  then show ?case by simp
next
  case (More x pages)
  from More.prems(1) obtain k' where k': "failsAfter pages = Some (k', err)" "k = Suc k'"
    by (auto split: option.splits)
  let ?e1 = "fst (snd (fst (snapshotPage dv x pageNum e)))"
  from snapshotPage_config [OF More.prems(3), of dv x pageNum]
  have sp: "snapshotPage dv x pageNum e = ((pageNum + 1, ?e1, None), pageNum + 1 \<le> maxPages e)"
    and mp: "maxPages ?e1 = maxPages e" and vb: "volBatchSize ?e1 = volBatchSize e"
    by blast+
  from More.prems(2) k' have le: "pageNum + 1 + int k' \<le> maxPages e" by simp
  then have cont: "pageNum + 1 \<le> maxPages e" by simp
  have "snd (snd (snapshotPages dv pages (pageNum + 1) ?e1)) = Some err"
    using More.IH [OF k'(1), of "pageNum + 1" ?e1] le mp vb More.prems(3) by simp
  moreover have "snapshotPages dv (More x pages) pageNum e
      = snapshotPages dv pages (pageNum + 1) ?e1"
    by (subst snapshotPages.simps, subst sp) (simp add: cont)
  ultimately show ?case by simp
qed

lemma Start_listing_fails:
  assumes "snd (timeParse w (dateFilter e)) = None" "GetCallerIdentity w = Inr acct"
    "failsAfter (DescribeSnapshots w acct (pageSize e)) = Some (k, err)"
    "k = 0 \<or> int k \<le> maxPages e" "volBatchSize e \<noteq> 0"
  shows "snd (Start w e) = Some err"
proof -
  let ?e2 = "e\<lparr>cutoffDate := fst (timeParse w (dateFilter e)), account := acct\<rparr>"
  have d: "setDateFilter w (dateFilter e) e
      = (e\<lparr>cutoffDate := fst (timeParse w (dateFilter e))\<rparr>, None)"
    using assms(1) by (simp add: setDateFilter_def)
  have a: "getAccountNumber w (e\<lparr>cutoffDate := fst (timeParse w (dateFilter e))\<rparr>) = (?e2, None)"
    using assms(2) by (simp add: getAccountNumber_def)
  have "snd (getSnapshots w ?e2) = Some err"
    using snapshotPages_fails [of "DescribeSnapshots w acct (pageSize e)" k err 0 ?e2
            "DescribeVolumes w"] assms(3,4,5)
    by (simp add: getSnapshots_def)
  then obtain e3 where "getSnapshots w ?e2 = (e3, Some err)" by (metis prod.collapse)
  then show ?thesis by (simp add: Start_def d a)
qed

lemma Start_correlation_fails:
  assumes "snd (timeParse w (dateFilter e)) = None" "GetCallerIdentity w = Inr acct"
    "getSnapshots w (e\<lparr>cutoffDate := fst (timeParse w (dateFilter e)), account := acct\<rparr>)
       = (e3, None)"
    "snd (populateNuggets w e3) = Some err"
  shows "snd (Start w e) = Some err"
proof -
  let ?e2 = "e\<lparr>cutoffDate := fst (timeParse w (dateFilter e)), account := acct\<rparr>"
  have d: "setDateFilter w (dateFilter e) e
      = (e\<lparr>cutoffDate := fst (timeParse w (dateFilter e))\<rparr>, None)"
    using assms(1) by (simp add: setDateFilter_def)
  have a: "getAccountNumber w (e\<lparr>cutoffDate := fst (timeParse w (dateFilter e))\<rparr>) = (?e2, None)"
    using assms(2) by (simp add: getAccountNumber_def)
  obtain e4 where "populateNuggets w e3 = (e4, Some err)"
    using assms(4) by (metis prod.collapse)
  then show ?thesis using assms(3) by (simp add: Start_def d a)
qed

text \<open>Correlation: the listings, and the first failing lookup of the sharing of an image.\<close>

lemma populateNuggets_listing_errors:
  "describeLaunchConfigurations w = Inl err \<longrightarrow> populateNuggets w e = (e, Some err)"
  "\<not> isl (describeLaunchConfigurations w) \<and> describeLaunchTemplates w = Inl err
     \<longrightarrow> populateNuggets w e = (e, Some err)"
  "\<not> isl (describeLaunchConfigurations w) \<and> \<not> isl (describeLaunchTemplates w)
     \<and> describeImagesOwnedByThisAccount w = Inl err
     \<longrightarrow> populateNuggets w e = (e, Some err)"
  "\<not> isl (describeLaunchConfigurations w) \<and> \<not> isl (describeLaunchTemplates w)
     \<and> \<not> isl (describeImagesOwnedByThisAccount w) \<and> describeASGs w = Inl err
     \<longrightarrow> populateNuggets w e = (e, Some err)"
  by (auto simp: populateNuggets_def split: sum.splits)

lemma correlate_error:
  assumes "\<forall>sid ami. \<not> isl (ltsWithSnapImage lts sid ami)"
  shows "snd (correlate w lcs lts asgs img i e) = sharingError w img"
proof -
  obtain names where
    "ltsWithSnapImage lts (SnapshotId (Snap (Nuggets e ! i))) (ImageId img) = Inr names"
    using assms by (metis isl_def sum.collapse(2))
  then show ?thesis
    by (simp add: correlate_def Let_def imageSharedTo_def sharingError_def split: sum.splits)
qed

lemma correlate_snaps:
  "map Snap (Nuggets (fst (correlate w lcs lts asgs img i e))) = map Snap (Nuggets e)"
proof (cases "i < length (Nuggets e)")
  case True
  then show ?thesis
    by (simp add: correlate_def Let_def map_update list_update_same_conv split: sum.splits)
next
  case False
  then have "length (Nuggets e) \<le> i" by simp
  then show ?thesis by (simp add: correlate_def Let_def list_update_beyond split: sum.splits)
qed

lemma populate_bdms_snaps:
  "map Snap (Nuggets (fst (populate_bdms w lcs lts asgs img i bdms e))) = map Snap (Nuggets e)"
proof (induction bdms arbitrary: e)
  case Nil
  then show ?case by simp
next
  case (Cons bdm bdms)
  obtain e1 err where c: "correlate w lcs lts asgs img i e = (e1, err)" by (metis prod.collapse)
  have s1: "map Snap (Nuggets e1) = map Snap (Nuggets e)"
    using correlate_snaps [of w lcs lts asgs img i e] c by simp
  show ?case using c s1 Cons.IH [of e] Cons.IH [of e1]
    by (cases err) (simp_all split: option.splits)
qed

lemma nth_Snap:
  "map Snap xs = map Snap ys \<Longrightarrow> i < length ys \<Longrightarrow> Snap (xs ! i) = Snap (ys ! i)"
  by (metis length_map nth_map)

lemma populate_bdms_error:
  assumes "\<forall>sid ami. \<not> isl (ltsWithSnapImage lts sid ami)" "i < length (Nuggets e)"
  shows "snd (populate_bdms w lcs lts asgs img i bdms e)
     = (if list_ex (\<lambda>bdm. case Ebs bdm of None \<Rightarrow> False
                          | Some ebs \<Rightarrow> EbsSnapshotId ebs = Some (SnapshotId (Snap (Nuggets e ! i))))
             bdms
        then sharingError w img else None)"
  using assms(2)
proof (induction bdms arbitrary: e)
  case Nil
  then show ?case by simp
next
  case (Cons bdm bdms)
  let ?sid = "SnapshotId (Snap (Nuggets e ! i))"
  let ?m = "\<lambda>bdm. case Ebs bdm of None \<Rightarrow> False | Some ebs \<Rightarrow> EbsSnapshotId ebs = Some ?sid"
  show ?case
  proof (cases "?m bdm")
    case False
    then have "populate_bdms w lcs lts asgs img i (bdm # bdms) e
        = populate_bdms w lcs lts asgs img i bdms e"
      by (auto split: option.splits)
    then show ?thesis using False Cons.IH [OF Cons.prems] by simp
  next
    case True
    then obtain ebs where ebs: "Ebs bdm = Some ebs" "EbsSnapshotId ebs = Some ?sid"
      by (auto split: option.splits)
    define e1 where "e1 = fst (correlate w lcs lts asgs img i e)"
    have c: "correlate w lcs lts asgs img i e = (e1, sharingError w img)"
      using correlate_error [OF assms(1), of w lcs asgs img i e] by (simp add: e1_def prod_eq_iff)
    have s1: "map Snap (Nuggets e1) = map Snap (Nuggets e)"
      using correlate_snaps [of w lcs lts asgs img i e] c by simp
    then have len: "i < length (Nuggets e1)" using Cons.prems by (metis length_map)
    have sid: "SnapshotId (Snap (Nuggets e1 ! i)) = ?sid"
      using nth_Snap [OF s1 Cons.prems] by simp
    show ?thesis
    proof (cases "sharingError w img")
      case None
      have "populate_bdms w lcs lts asgs img i (bdm # bdms) e
        = populate_bdms w lcs lts asgs img i bdms e1"
        using ebs c None by simp
      then show ?thesis using Cons.IH [OF len] None by simp
    next
      case (Some err)
      have "populate_bdms w lcs lts asgs img i (bdm # bdms) e = (e1, Some err)"
        using ebs c Some by simp
      then show ?thesis using True Some by simp
    qed
  qed
qed

lemma populate_snaps_snaps:
  "map Snap (Nuggets (fst (populate_snaps w lcs lts asgs img is e))) = map Snap (Nuggets e)"
proof (induction "is" arbitrary: e)
  case Nil
  then show ?case by simp
next
  case (Cons i "is")
  obtain e1 err where
    c: "populate_bdms w lcs lts asgs img i (BlockDeviceMappings img) e = (e1, err)"
    by (metis prod.collapse)
  have s1: "map Snap (Nuggets e1) = map Snap (Nuggets e)"
    using populate_bdms_snaps [of w lcs lts asgs img i "BlockDeviceMappings img" e] c by simp
  show ?case using c s1 Cons.IH [of e1] by (cases err) simp_all
qed

lemma populate_snaps_error:
  assumes "\<forall>sid ami. \<not> isl (ltsWithSnapImage lts sid ami)" "\<forall>i \<in> set is. i < length (Nuggets e)"
  shows "snd (populate_snaps w lcs lts asgs img is e)
     = (if list_ex (\<lambda>i. mapsSnapshot img (SnapshotId (Snap (Nuggets e ! i)))) is
        then sharingError w img else None)"
  using assms(2)
proof (induction "is" arbitrary: e)
  case Nil
  then show ?case by simp
next
  case (Cons i "is")
  from Cons.prems have i: "i < length (Nuggets e)" and rest: "\<forall>j \<in> set is. j < length (Nuggets e)"
    by simp_all
  define e1 where "e1 = fst (populate_bdms w lcs lts asgs img i (BlockDeviceMappings img) e)"
  have c: "populate_bdms w lcs lts asgs img i (BlockDeviceMappings img) e
      = (e1, if mapsSnapshot img (SnapshotId (Snap (Nuggets e ! i))) then sharingError w img
             else None)"
    using populate_bdms_error [OF assms(1) i, of w lcs asgs img "BlockDeviceMappings img"]
    unfolding mapsSnapshot_def e1_def by (simp add: prod_eq_iff)
  have s1: "map Snap (Nuggets e1) = map Snap (Nuggets e)"
    using populate_bdms_snaps [of w lcs lts asgs img i "BlockDeviceMappings img" e] c by simp
  then have len: "length (Nuggets e1) = length (Nuggets e)" by (metis length_map)
  have same: "list_ex (\<lambda>i. mapsSnapshot img (SnapshotId (Snap (Nuggets e1 ! i)))) is
      = list_ex (\<lambda>i. mapsSnapshot img (SnapshotId (Snap (Nuggets e ! i)))) is"
    using rest nth_Snap [OF s1] by (auto simp: list_ex_iff)
  have ih: "snd (populate_snaps w lcs lts asgs img is e1)
     = (if list_ex (\<lambda>i. mapsSnapshot img (SnapshotId (Snap (Nuggets e ! i)))) is
        then sharingError w img else None)"
    using Cons.IH [of e1] rest len same by simp
  show ?case
  proof (cases "mapsSnapshot img (SnapshotId (Snap (Nuggets e ! i))) \<and> sharingError w img \<noteq> None")
    case True
    then obtain err where "sharingError w img = Some err" by auto
    then show ?thesis using c True by simp
  next
    case False
    then have "populate_snaps w lcs lts asgs img (i # is) e
        = populate_snaps w lcs lts asgs img is e1"
      using c by (auto split: option.splits)
    then show ?thesis using ih False by auto
  qed
qed

lemma list_ex_upt: "list_ex (\<lambda>i. P (xs ! i)) [0..<length xs] = list_ex P xs"
  by (auto simp: list_ex_iff set_conv_nth)

lemma mapped_cong:
  assumes "map Snap (Nuggets e1) = map Snap (Nuggets e)"
  shows "mapped img e1 = mapped img e"
proof -
  have "\<And>e. mapped img e = list_ex (\<lambda>s. mapsSnapshot img (SnapshotId s)) (map Snap (Nuggets e))"
    by (simp add: mapped_def list_ex_iff)
  then show ?thesis using assms by simp
qed

lemma populate_images_error:
  assumes "\<forall>sid ami. \<not> isl (ltsWithSnapImage lts sid ami)"
  shows "snd (populate_images w lcs lts asgs images e)
     = (case find (\<lambda>img. mapped img e \<and> sharingError w img \<noteq> None) images of
          None \<Rightarrow> None
        | Some img \<Rightarrow> sharingError w img)"
proof (induction images arbitrary: e)
  case Nil
  then show ?case by simp
next
  case (Cons img images)
  have "\<forall>i \<in> set [0..<length (Nuggets e)]. i < length (Nuggets e)" by simp
  then have "snd (populate_snaps w lcs lts asgs img [0..<length (Nuggets e)] e)
      = (if mapped img e then sharingError w img else None)"
    using populate_snaps_error [OF assms, of "[0..<length (Nuggets e)]" e w lcs asgs img]
      list_ex_upt [of "\<lambda>nug. mapsSnapshot img (SnapshotId (Snap nug))" "Nuggets e"]
    unfolding mapped_def by simp
  moreover define e1 where
    "e1 = fst (populate_snaps w lcs lts asgs img [0..<length (Nuggets e)] e)"
  ultimately have c: "populate_snaps w lcs lts asgs img [0..<length (Nuggets e)] e
      = (e1, if mapped img e then sharingError w img else None)"
    by (simp add: prod_eq_iff)
  have s1: "map Snap (Nuggets e1) = map Snap (Nuggets e)"
    using populate_snaps_snaps [of w lcs lts asgs img "[0..<length (Nuggets e)]" e] c by simp
  show ?case
  proof (cases "mapped img e \<and> sharingError w img \<noteq> None")
    case True
    then obtain err where "sharingError w img = Some err" by auto
    then show ?thesis using c True by simp
  next
    case False
    then have "populate_images w lcs lts asgs (img # images) e
        = populate_images w lcs lts asgs images e1"
      using c by (auto split: option.splits)
    then show ?thesis using Cons.IH [of e1] False mapped_cong [OF s1] by auto
  qed
qed

lemma populateNuggets_sharing_error:
  assumes "describeLaunchConfigurations w = Inr lcs" "describeLaunchTemplates w = Inr lts"
    "describeImagesOwnedByThisAccount w = Inr images" "describeASGs w = Inr asgs"
    "\<forall>sid ami. \<not> isl (ltsWithSnapImage lts sid ami)"
  shows "snd (populateNuggets w e)
     = (case find (\<lambda>img. mapped img e \<and> sharingError w img \<noteq> None) images of
          None \<Rightarrow> None
        | Some img \<Rightarrow> sharingError w img)"
  using populate_images_error [OF assms(5), of w lcs asgs images e] assms(1-4)
  by (simp add: populateNuggets_def)

text \<open>
  Claim C4, amended. A run that returns an error leaves the recommendations and the four
  plan sequences as they were: no partial plan. Snapshot intake: when a request of the
  snapshot listing fails after \<open>k\<close> pages, \<open>k\<close> within the page cap, \<open>Start\<close> returns
  the error of that request (the date and the account number were obtained, and the
  batch size is not the zero that panics). Correlation: each of the listings of the
  launch configurations, of the launch templates and of the autoscaling groups fails
  exactly when one of its first 49 requests fails, with the error of that request, and
  the listing of the images exactly when the caller identity or the image request fails;
  the first failing listing is the error of \<open>populateNuggets\<close>; when the listings go
  through (and no launch template makes \<open>ltsWithSnapImage\<close> panic), the error of
  \<open>populateNuggets\<close> is the error of the first image, in listing order, that maps the
  snapshot of a nugget and whose sharing lookup fails, and there is none when there is
  no such image. An error of \<open>populateNuggets\<close> after an intake without error is the
  error \<open>Start\<close> returns. Volume resolution: a volume lookup answered with the error
  that the volume is not found does not end the run; the run is the run of the provider
  that reports no volume instead.
\<close>

theorem Start_aborts_on_provider_errors_except_volume_not_found:
  "(snd (Start w e) = Some err \<longrightarrow>
      recommendations (fst (Start w e)) = recommendations e
    \<and> LtsToDelete (fst (Start w e)) = LtsToDelete e
    \<and> LcsToDelete (fst (Start w e)) = LcsToDelete e
    \<and> AmiToDelete (fst (Start w e)) = AmiToDelete e
    \<and> SnapToDelete (fst (Start w e)) = SnapToDelete e)
   \<and> (snd (timeParse w (dateFilter e)) = None \<and> GetCallerIdentity w = Inr acct
        \<and> failsAfter (DescribeSnapshots w acct (pageSize e)) = Some (k, err)
        \<and> (k = 0 \<or> int k \<le> maxPages e) \<and> volBatchSize e \<noteq> 0
      \<longrightarrow> snd (Start w e) = Some err)
   \<and> (describeLaunchConfigurations w = Inl err
        \<longleftrightarrow> (\<exists>n<49. failsAfter (DescribeLaunchConfigurations w) = Some (n, err)))
   \<and> (describeLaunchTemplates w = Inl err
        \<longleftrightarrow> (\<exists>n<49. failsAfter (DescribeLaunchTemplateVersions w) = Some (n, err)))
   \<and> (describeASGs w = Inl err
        \<longleftrightarrow> (\<exists>n<49. failsAfter (DescribeAutoScalingGroups w) = Some (n, err)))
   \<and> (describeImagesOwnedByThisAccount w = Inl err
        \<longleftrightarrow> (case GetCallerIdentity w of Inl e' \<Rightarrow> e' = err
              | Inr owner \<Rightarrow> DescribeImages w owner = Inl err))
   \<and> (describeLaunchConfigurations w = Inl err \<longrightarrow> populateNuggets w e = (e, Some err))
   \<and> (\<not> isl (describeLaunchConfigurations w) \<and> describeLaunchTemplates w = Inl err
         \<longrightarrow> populateNuggets w e = (e, Some err))
   \<and> (\<not> isl (describeLaunchConfigurations w) \<and> \<not> isl (describeLaunchTemplates w)
         \<and> describeImagesOwnedByThisAccount w = Inl err
         \<longrightarrow> populateNuggets w e = (e, Some err))
   \<and> (\<not> isl (describeLaunchConfigurations w) \<and> \<not> isl (describeLaunchTemplates w)
         \<and> \<not> isl (describeImagesOwnedByThisAccount w) \<and> describeASGs w = Inl err
         \<longrightarrow> populateNuggets w e = (e, Some err))
   \<and> (describeLaunchConfigurations w = Inr lcs \<and> describeLaunchTemplates w = Inr lts
        \<and> describeImagesOwnedByThisAccount w = Inr images \<and> describeASGs w = Inr asgs
        \<and> (\<forall>sid ami. \<not> isl (ltsWithSnapImage lts sid ami))
      \<longrightarrow> snd (populateNuggets w e)
            = (case find (\<lambda>img. mapped img e \<and> sharingError w img \<noteq> None) images of
                 None \<Rightarrow> None
               | Some img \<Rightarrow> sharingError w img))
   \<and> (snd (timeParse w (dateFilter e)) = None \<and> GetCallerIdentity w = Inr acct
        \<and> getSnapshots w (e\<lparr>cutoffDate := fst (timeParse w (dateFilter e)), account := acct\<rparr>)
            = (e3, None)
        \<and> snd (populateNuggets w e3) = Some err
      \<longrightarrow> snd (Start w e) = Some err)
   \<and> Start (ignoreNotFound w) e = Start w e"
proof -
  have a: "snd (Start w e) = Some err \<longrightarrow>
      recommendations (fst (Start w e)) = recommendations e
    \<and> LtsToDelete (fst (Start w e)) = LtsToDelete e
    \<and> LcsToDelete (fst (Start w e)) = LcsToDelete e
    \<and> AmiToDelete (fst (Start w e)) = AmiToDelete e
    \<and> SnapToDelete (fst (Start w e)) = SnapToDelete e"
    using Start_error_frame by blast
  have b: "snd (timeParse w (dateFilter e)) = None \<and> GetCallerIdentity w = Inr acct
        \<and> failsAfter (DescribeSnapshots w acct (pageSize e)) = Some (k, err)
        \<and> (k = 0 \<or> int k \<le> maxPages e) \<and> volBatchSize e \<noteq> 0
      \<longrightarrow> snd (Start w e) = Some err"
    using Start_listing_fails [of w e acct k err] by blast
  have c: "describeLaunchConfigurations w = Inl err
        \<longleftrightarrow> (\<exists>n<49. failsAfter (DescribeLaunchConfigurations w) = Some (n, err))"
    "describeLaunchTemplates w = Inl err
        \<longleftrightarrow> (\<exists>n<49. failsAfter (DescribeLaunchTemplateVersions w) = Some (n, err))"
    "describeASGs w = Inl err
        \<longleftrightarrow> (\<exists>n<49. failsAfter (DescribeAutoScalingGroups w) = Some (n, err))"
    unfolding describeLaunchConfigurations_def describeLaunchTemplates_def describeASGs_def
    by (rule describe_all_fails)+
  have d: "describeImagesOwnedByThisAccount w = Inl err
        \<longleftrightarrow> (case GetCallerIdentity w of Inl e' \<Rightarrow> e' = err
              | Inr owner \<Rightarrow> DescribeImages w owner = Inl err)"
    by (rule describeImages_fails)
  have s: "describeLaunchConfigurations w = Inr lcs \<and> describeLaunchTemplates w = Inr lts
        \<and> describeImagesOwnedByThisAccount w = Inr images \<and> describeASGs w = Inr asgs
        \<and> (\<forall>sid ami. \<not> isl (ltsWithSnapImage lts sid ami))
      \<longrightarrow> snd (populateNuggets w e)
            = (case find (\<lambda>img. mapped img e \<and> sharingError w img \<noteq> None) images of
                 None \<Rightarrow> None
               | Some img \<Rightarrow> sharingError w img)"
    using populateNuggets_sharing_error [of w lcs lts images asgs e] by blast
  have f: "snd (timeParse w (dateFilter e)) = None \<and> GetCallerIdentity w = Inr acct
        \<and> getSnapshots w (e\<lparr>cutoffDate := fst (timeParse w (dateFilter e)), account := acct\<rparr>)
            = (e3, None)
        \<and> snd (populateNuggets w e3) = Some err
      \<longrightarrow> snd (Start w e) = Some err"
    using Start_correlation_fails [of w e acct e3 err] by blast
  show ?thesis
    using a b c d populateNuggets_listing_errors [of w err e] s f Start_ignore [of w e]
    by (intro conjI) assumption+
qed


lemma exFailing_run_inputs:
  "snd (timeParse (exProviderFailing call) (dateFilter (exState [] [] [] [] [] [] [] 0 [] [])))
     = None"
  "GetCallerIdentity (exProviderFailing call) = Inr ''123456789012''"
  "(exState [] [] [] [] [] [] [] 0 [] [])
      \<lparr>cutoffDate := fst (timeParse (exProviderFailing call)
                            (dateFilter (exState [] [] [] [] [] [] [] 0 [] []))),
       account := ''123456789012''\<rparr>
     = exState [] [] [] [] [] [] ''123456789012'' 100 [] []"
  by (simp_all add: exProviderFailing_def exProvider_def exState_def)

lemma exFailing_listing:
  "failsAfter (DescribeSnapshots (exProviderFailing ''DescribeSnapshots'') ''123456789012''
                 (pageSize (exState [] [] [] [] [] [] [] 0 [] [])))
     = Some (1, Error ''RequestLimitExceeded'')"
  "int 1 \<le> maxPages (exState [] [] [] [] [] [] [] 0 [] [])"
  "volBatchSize (exState [] [] [] [] [] [] [] 0 [] []) \<noteq> 0"
  by (simp_all add: exProviderFailing_def exState_def)

lemma exFailing_intake:
  "call \<noteq> ''DescribeSnapshots'' \<Longrightarrow>
   getSnapshots (exProviderFailing call) (exState [] [] [] [] [] [] ''123456789012'' 100 [] [])
     = (exState [] exNuggets1 [] [] [] [] ''123456789012'' 100 [''vol-2''] [], None)"
  by (simp add: intake_defs exProviderFailing_def exProvider_def ex_defs exNuggets1_def)

lemma exFailing_requests:
  "\<exists>n<49. failsAfter (DescribeLaunchConfigurations (exProviderFailing ''DescribeLaunchConfigurations''))
     = Some (n, Error ''RequestLimitExceeded'')"
  "\<exists>n<49. failsAfter (DescribeLaunchTemplateVersions
                        (exProviderFailing ''DescribeLaunchTemplateVersions''))
     = Some (n, Error ''RequestLimitExceeded'')"
  "\<exists>n<49. failsAfter (DescribeAutoScalingGroups (exProviderFailing ''DescribeAutoScalingGroups''))
     = Some (n, Error ''RequestLimitExceeded'')"
  "(case GetCallerIdentity (exProviderFailing ''DescribeImages'') of
      Inl e' \<Rightarrow> e' = Error ''RequestLimitExceeded''
    | Inr owner \<Rightarrow> DescribeImages (exProviderFailing ''DescribeImages'') owner
                     = Inl (Error ''RequestLimitExceeded''))"
  by (simp_all add: exProviderFailing_def exProvider_def)

lemma exFailing_calls:
  "\<not> isl (describeLaunchConfigurations (exProviderFailing ''DescribeLaunchTemplateVersions''))"
  "\<not> isl (describeLaunchConfigurations (exProviderFailing ''DescribeImages''))"
  "\<not> isl (describeLaunchTemplates (exProviderFailing ''DescribeImages''))"
  "\<not> isl (describeLaunchConfigurations (exProviderFailing ''DescribeAutoScalingGroups''))"
  "\<not> isl (describeLaunchTemplates (exProviderFailing ''DescribeAutoScalingGroups''))"
  "\<not> isl (describeImagesOwnedByThisAccount (exProviderFailing ''DescribeAutoScalingGroups''))"
  by (simp_all add: describeLaunchConfigurations_def describeLaunchTemplates_def
        describeImagesOwnedByThisAccount_def describeASGs_def describe_all_def
        exProviderFailing_def exProvider_def)

lemma exFailing_sharing:
  "describeLaunchConfigurations (exProviderFailing ''DescribeImageAttribute'')
     = Inr [\<lparr>LaunchConfigurationName = ''lc-1'', LcImageId = ''ami-1'',
             LcBlockDeviceMappings = []\<rparr>]"
  "describeLaunchTemplates (exProviderFailing ''DescribeImageAttribute'') = Inr []"
  "describeImagesOwnedByThisAccount (exProviderFailing ''DescribeImageAttribute'')
     = Inr [\<lparr>ImageId = ''ami-1'', BlockDeviceMappings = [exBdm ''snap-B'']\<rparr>]"
  "describeASGs (exProviderFailing ''DescribeImageAttribute'')
     = Inr [\<lparr>AutoScalingGroupName = ''asg-1'', AsgLaunchConfigurationName = Some ''lc-1'',
             AsgLaunchTemplate = None\<rparr>]"
  "\<forall>sid ami. \<not> isl (ltsWithSnapImage [] sid ami)"
  "(case find (\<lambda>img. mapped img (exState [] exNuggets1 [] [] [] [] ''123456789012'' 100
                                    [''vol-2''] [])
                     \<and> sharingError (exProviderFailing ''DescribeImageAttribute'') img \<noteq> None)
           [\<lparr>ImageId = ''ami-1'', BlockDeviceMappings = [exBdm ''snap-B'']\<rparr>] of
      None \<Rightarrow> None
    | Some img \<Rightarrow> sharingError (exProviderFailing ''DescribeImageAttribute'') img)
     = Some (Error ''RequestLimitExceeded'')"
  by (simp_all add: describeLaunchConfigurations_def describeLaunchTemplates_def
        describeImagesOwnedByThisAccount_def describeASGs_def describe_all_def
        exProviderFailing_def exProvider_def mapped_def mapsSnapshot_def sharingError_def
        ex_defs exNuggets1_def)

theorem Start_aborts_on_provider_errors_except_volume_not_found_witness:
  "snd (Start (exProviderFailing ''DescribeSnapshots'') (exState [] [] [] [] [] [] [] 0 [] []))
       = Some (Error ''RequestLimitExceeded'')
   \<and> recommendations
        (fst (Start (exProviderFailing ''DescribeSnapshots'') (exState [] [] [] [] [] [] [] 0 [] [])))
       = []
   \<and> SnapToDelete
        (fst (Start (exProviderFailing ''DescribeSnapshots'') (exState [] [] [] [] [] [] [] 0 [] [])))
       = []
   \<and> snd (Start (exProviderFailing ''DescribeLaunchConfigurations'')
              (exState [] [] [] [] [] [] [] 0 [] []))
       = Some (Error ''RequestLimitExceeded'')
   \<and> snd (Start (exProviderFailing ''DescribeLaunchTemplateVersions'')
              (exState [] [] [] [] [] [] [] 0 [] []))
       = Some (Error ''RequestLimitExceeded'')
   \<and> snd (Start (exProviderFailing ''DescribeImages'') (exState [] [] [] [] [] [] [] 0 [] []))
       = Some (Error ''RequestLimitExceeded'')
   \<and> snd (Start (exProviderFailing ''DescribeAutoScalingGroups'')
              (exState [] [] [] [] [] [] [] 0 [] []))
       = Some (Error ''RequestLimitExceeded'')
   \<and> snd (Start (exProviderFailing ''DescribeImageAttribute'')
              (exState [] [] [] [] [] [] [] 0 [] []))
       = Some (Error ''RequestLimitExceeded'')
   \<and> Start (ignoreNotFound exProvider) (exState [] [] [] [] [] [] [] 0 [] []) = (exFinal, None)"
proof -
  let ?e0 = "exState [] [] [] [] [] [] [] 0 [] []"
  let ?e3 = "exState [] exNuggets1 [] [] [] [] ''123456789012'' 100 [''vol-2''] []"
  let ?err = "Error ''RequestLimitExceeded''"
  let ?acct = "''123456789012''"
  note t = Start_aborts_on_provider_errors_except_volume_not_found
  note d2 = conjunct2 [THEN conjunct2]
  note d3 = d2 [THEN conjunct2]
  note d4 = d3 [THEN conjunct2]
  note d5 = d4 [THEN conjunct2]
  note d6 = d5 [THEN conjunct2]
  note d7 = d6 [THEN conjunct2]
  note d8 = d7 [THEN conjunct2]
  note d9 = d8 [THEN conjunct2]
  note d10 = d9 [THEN conjunct2]
  note d11 = d10 [THEN conjunct2]
  note d12 = d11 [THEN conjunct2]
  have run1: "snd (Start (exProviderFailing ''DescribeSnapshots'') ?e0) = Some ?err"
    by (rule t [where acct = ?acct and k = 1, THEN conjunct2, THEN conjunct1, THEN mp])
       (intro conjI exFailing_run_inputs(1,2) exFailing_listing(1,3) disjI2
          exFailing_listing(2))
  have plan1: "recommendations (fst (Start (exProviderFailing ''DescribeSnapshots'') ?e0)) = []"
    "SnapToDelete (fst (Start (exProviderFailing ''DescribeSnapshots'') ?e0)) = []"
    using t [where w = "exProviderFailing ''DescribeSnapshots''" and e = ?e0 and err = ?err,
               THEN conjunct1, THEN mp, OF run1]
    by (simp_all add: exState_def)
  have after: "snd (Start (exProviderFailing call) ?e0) = Some ?err"
    if c: "call \<noteq> ''DescribeSnapshots''"
      and p: "snd (populateNuggets (exProviderFailing call) ?e3) = Some ?err" for call
  proof -
    have "getSnapshots (exProviderFailing call)
            (?e0\<lparr>cutoffDate := fst (timeParse (exProviderFailing call) (dateFilter ?e0)),
                 account := ?acct\<rparr>) = (?e3, None)"
      unfolding exFailing_run_inputs(3) using c by (rule exFailing_intake)
    then show ?thesis
      by (intro t [where acct = ?acct and ?e3.0 = ?e3, THEN d11, THEN conjunct1, THEN mp]
            conjI exFailing_run_inputs(1,2) p)
  qed
  have lcs: "populateNuggets (exProviderFailing ''DescribeLaunchConfigurations'') ?e3
      = (?e3, Some ?err)"
    by (rule t [THEN d6, THEN conjunct1, THEN mp], rule t [THEN d2, THEN conjunct1, THEN iffD2],
        rule exFailing_requests(1))
  have lts: "populateNuggets (exProviderFailing ''DescribeLaunchTemplateVersions'') ?e3
      = (?e3, Some ?err)"
    by (rule t [THEN d7, THEN conjunct1, THEN mp], rule conjI, rule exFailing_calls(1),
        rule t [THEN d3, THEN conjunct1, THEN iffD2], rule exFailing_requests(2))
  have imgs: "populateNuggets (exProviderFailing ''DescribeImages'') ?e3 = (?e3, Some ?err)"
    by (rule t [THEN d8, THEN conjunct1, THEN mp], intro conjI, rule exFailing_calls(2),
        rule exFailing_calls(3), rule t [THEN d5, THEN conjunct1, THEN iffD2],
        rule exFailing_requests(4))
  have asgs: "populateNuggets (exProviderFailing ''DescribeAutoScalingGroups'') ?e3
      = (?e3, Some ?err)"
    by (rule t [THEN d9, THEN conjunct1, THEN mp], intro conjI, rule exFailing_calls(4),
        rule exFailing_calls(5), rule exFailing_calls(6),
        rule t [THEN d4, THEN conjunct1, THEN iffD2], rule exFailing_requests(3))
  have "snd (populateNuggets (exProviderFailing ''DescribeImageAttribute'') ?e3)
      = (case find (\<lambda>img. mapped img ?e3
                     \<and> sharingError (exProviderFailing ''DescribeImageAttribute'') img \<noteq> None)
           [\<lparr>ImageId = ''ami-1'', BlockDeviceMappings = [exBdm ''snap-B'']\<rparr>] of
           None \<Rightarrow> None
         | Some img \<Rightarrow> sharingError (exProviderFailing ''DescribeImageAttribute'') img)"
    by (rule t [THEN d10, THEN conjunct1, THEN mp]) (rule conjI exFailing_sharing(1,2,3,4,5))+
  then have share: "snd (populateNuggets (exProviderFailing ''DescribeImageAttribute'') ?e3)
      = Some ?err"
    by (simp only: exFailing_sharing(6))
  have run2: "snd (Start (exProviderFailing ''DescribeLaunchConfigurations'') ?e0) = Some ?err"
    by (rule after) (simp_all add: lcs)
  have run3: "snd (Start (exProviderFailing ''DescribeLaunchTemplateVersions'') ?e0) = Some ?err"
    by (rule after) (simp_all add: lts)
  have run4: "snd (Start (exProviderFailing ''DescribeImages'') ?e0) = Some ?err"
    by (rule after) (simp_all add: imgs)
  have run5: "snd (Start (exProviderFailing ''DescribeAutoScalingGroups'') ?e0) = Some ?err"
    by (rule after) (simp_all add: asgs)
  have run6: "snd (Start (exProviderFailing ''DescribeImageAttribute'') ?e0) = Some ?err"
    by (rule after) (simp_all add: share)
  have run7: "Start (ignoreNotFound exProvider) ?e0 = (exFinal, None)"
    by (simp only: t [THEN d12] exRun)
  show ?thesis
    by (intro conjI run1 plan1 run2 run3 run4 run5 run6 run7)
qed

text \<open>
  Describing \<open>vol-1\<close> fails during volume resolution: the provider reports that the
  volume is not found. The run made by \<open>New\<close> and \<open>Start\<close> returns no error, holds
  the volume for deleted and recommends \<open>snap-A\<close> for deletion.
\<close>

theorem Start_continues_after_volume_not_found_counterexample:
  "New exInput = (exState [] [] [] [] [] [] [] 0 [] [], None)
   \<and> DescribeVolumes exProvider ''vol-1'' = Inl (Error ''InvalidVolume.NotFound'')
   \<and> Start exProvider (exState [] [] [] [] [] [] [] 0 [] []) = (exFinal, None)
   \<and> VolumeId (Snap (Nuggets exFinal ! 0)) = ''vol-1''
   \<and> HasVol (Nuggets exFinal ! 0) = False
   \<and> SnapToDelete exFinal = [''snap-A'']
   \<and> recommendations exFinal
       = [IntroLine 1 ''2019-01-01'', CaveatLine, LtHeader, LcHeader, AmiHeader, SnapHeader,
          Item ''snap-A'', SparedHasVolLine 1, SparedAsgShareLine 1, CostLine 20 (1 / 20) 1]"
  by (simp add: exNew exRun)
     (simp add: exProvider_def exFinal_def ex_defs exNuggets3_def)


end
